theory Spec2Isabelle
  imports Main "HOL-Library.AList" "HOL-Library.Multiset"
begin

section \<open>Strings and numbers of the source language\<close>

text \<open>
  A JavaScript string is a sequence of UTF-16 code units; \<open>length\<close>, \<open>substring\<close>,
  \<open>padStart\<close> and the regular expressions of \<open>pack.ts\<close> (none has the \<open>u\<close> flag) all
  count and match code units. A code unit is modelled as a natural number, a string as
  the list of its code units. \<open>str\<close> embeds an ASCII literal.
\<close>

type_synonym jsstring = "nat list"

definition str :: "string \<Rightarrow> jsstring" where
  "str s = map of_char s"

text \<open>
  Template interpolation \<open>${n}\<close> of a non-negative integer: its decimal digits.
\<close>

fun decimal :: "nat \<Rightarrow> jsstring" where
  "decimal n = (if n < 10 then [48 + n] else decimal (n div 10) @ [48 + n mod 10])"

declare decimal.simps [simp del]

text \<open>
  \<open>(num / den).toFixed(1)\<close> for a non-negative integer \<open>num\<close> and \<open>den\<close> a power of
  two (1024 and 1024 * 1024 in \<open>formatFileSize\<close>). The division by a power of two is
  exact in double precision for every integer up to \<open>2^53\<close>, so the number formatted is
  the rational \<open>num / den\<close> itself. \<open>Number.prototype.toFixed\<close> takes the integer
  \<open>t\<close> for which \<open>t / 10 - x\<close> is as close to zero as possible, the larger one of two,
  which is \<open>\<lfloor>10 * x + 1 / 2\<rfloor>\<close>, and prints the digits of \<open>t\<close> with a dot before the
  last one (and a leading \<open>0\<close> when \<open>t < 10\<close>). From \<open>10^21\<close> on \<open>toFixed\<close> prints
  an exponent instead; no length of a buffer, which stays below \<open>2^53\<close>, comes near.
\<close>

definition tenths :: "nat \<Rightarrow> nat \<Rightarrow> nat" where
  "tenths num den = (20 * num + den) div (2 * den)"

definition toFixed1 :: "nat \<Rightarrow> nat \<Rightarrow> jsstring" where
  "toFixed1 num den =
     decimal (tenths num den div 10) @ str ''.'' @ [48 + tenths num den mod 10]"

subsection \<open>formatFileSize (pack.ts, lines 25-33)\<close>

definition formatFileSize :: "nat \<Rightarrow> jsstring" where
  "formatFileSize bytes =
     (if bytes < 1024 then decimal bytes @ str ''B''
      else if bytes < 1024 * 1024 then toFixed1 bytes 1024 @ str ''kB''
      else toFixed1 bytes (1024 * 1024) @ str ''MB'')"

subsection \<open>sanitizeNameForFilename (pack.ts, lines 35-45)\<close>

text \<open>
  \<open>String.prototype.toLowerCase\<close>. On a string of ASCII code units it maps \<open>A\<close>-\<open>Z\<close> to
  \<open>a\<close>-\<open>z\<close> and leaves everything else. On any other string the result is the Unicode
  lower-casing of the engine (it can change the length, and it can produce ASCII
  letters from non-ASCII ones, as for U+212A KELVIN SIGN); that function is the
  parameter \<open>ulc\<close>, about which nothing is assumed.
\<close>

definition asciiLower :: "nat \<Rightarrow> nat" where
  "asciiLower c = (if 65 \<le> c \<and> c \<le> 90 then c + 32 else c)"

definition toLowerCase :: "(jsstring \<Rightarrow> jsstring) \<Rightarrow> jsstring \<Rightarrow> jsstring" where
  "toLowerCase ulc s = (if list_all (\<lambda>c. c < 128) s then map asciiLower s else ulc s)"

text \<open>
  The class \<open>\s\<close> of a JavaScript regular expression: the white space and line
  terminator code points of ECMAScript.
\<close>

definition isWhiteSpace :: "nat \<Rightarrow> bool" where
  "isWhiteSpace c =
     (c \<in> {9, 10, 11, 12, 13, 32, 160, 5760, 8232, 8233, 8239, 8287, 12288, 65279}
      \<or> (8192 \<le> c \<and> c \<le> 8202))"

definition isHyphen :: "nat \<Rightarrow> bool" where
  "isHyphen c = (c = 45)"

text \<open>The class \<open>[a-z0-9-_.]\<close>: two ranges and the three literals \<open>-\<close>, \<open>_\<close> and \<open>.\<close>.\<close>

definition isFilenameChar :: "nat \<Rightarrow> bool" where
  "isFilenameChar c =
     ((97 \<le> c \<and> c \<le> 122) \<or> (48 \<le> c \<and> c \<le> 57) \<or> c = 45 \<or> c = 95 \<or> c = 46)"

text \<open>
  \<open>.replace(/C+/g, "-")\<close> for a character class \<open>C\<close>: every maximal run of code units
  of the class becomes one hyphen.
\<close>

function replaceRuns :: "(nat \<Rightarrow> bool) \<Rightarrow> jsstring \<Rightarrow> jsstring" where
  "replaceRuns P [] = []"
| "replaceRuns P (c # cs) =
     (if P c then 45 # replaceRuns P (dropWhile P cs) else c # replaceRuns P cs)"
  by pat_completeness auto
termination
  by (relation "measure (\<lambda>(P, s). length s)")
     (auto simp: less_Suc_eq_le length_dropWhile_le)

text \<open>\<open>.replace(/^-+|-+$/g, "")\<close>: the hyphens at the start and at the end go.\<close>

definition trimHyphens :: "jsstring \<Rightarrow> jsstring" where
  "trimHyphens s = rev (dropWhile isHyphen (rev (dropWhile isHyphen s)))"

definition sanitizeNameForFilename :: "(jsstring \<Rightarrow> jsstring) \<Rightarrow> jsstring \<Rightarrow> jsstring" where
  "sanitizeNameForFilename ulc name =
     take 100
       (trimHyphens
         (replaceRuns isHyphen
           (filter isFilenameChar
             (replaceRuns isWhiteSpace
               (toLowerCase ulc name)))))"


section \<open>The collaborators of packExtension\<close>

text \<open>
  A thrown value is an instance of \<open>Error\<close>, which carries a message, or anything
  else; the two \<open>catch\<close> blocks of \<open>packExtension\<close> tell them apart with
  \<open>instanceof\<close>.
\<close>

datatype error = Error jsstring | Thrown

text \<open>
  The value of a property of the \<open>files\<close> object: a string or a byte array (the loop
  of lines 143-165 asks \<open>typeof content === "string"\<close>).
\<close>

datatype content = Text jsstring | Binary "nat list"

text \<open>The two fields of the parsed manifest that \<open>packExtension\<close> reads.\<close>

record manifest =
  name :: jsstring
  version :: jsstring

record PackOptions =
  extensionPath :: jsstring
  outputPath :: "jsstring option"
  silent :: "bool option"

text \<open>
  Everything \<open>packExtension\<close> imports and calls is outside \<open>pack.ts\<close>: Node's
  \<open>path\<close>, \<open>fs\<close> and \<open>crypto\<close> modules, \<open>fflate\<close>, the prompt, and the modules
  \<open>files.js\<close>, \<open>validate.js\<close>, \<open>schemas.js\<close> and \<open>init.js\<close>. They are the fields of
  an environment, and the theorems hold for every environment.

  The pure functions are functions of their arguments (\<open>resolve\<close> and \<open>relative\<close>
  for the working directory of the process, \<open>localeCompare\<close> for its locale).
  A call that reads or changes the world is made at most once for a given argument in
  one invocation, so its field is what that call answers in this invocation: a value, or
  \<open>Inl\<close> of what it throws. \<open>now\<close> is what \<open>new Date()\<close> yields on line 190, in
  milliseconds. \<open>parseManifest\<close> stands for lines 92-94 (\<open>readFileSync\<close>,
  \<open>JSON.parse\<close> and \<open>DxtManifestSchema.parse\<close>). The \<open>files\<close> object is the list of
  its properties in the order of \<open>Object.entries\<close>. \<open>getAllFilesWithCount\<close> is given
  the empty object as its third argument on line 121, always; the field leaves it out.
  \<open>sep\<close> is the one code unit of \<open>path.sep\<close>. \<open>unicodeLower\<close> is the lower-casing of
  the engine on strings that are not ASCII, \<open>byteLength\<close> is \<open>Buffer.byteLength\<close> for
  UTF-8.
\<close>

record env =
  resolve :: "jsstring \<Rightarrow> jsstring"
  basename :: "jsstring \<Rightarrow> jsstring"
  join :: "jsstring \<Rightarrow> jsstring \<Rightarrow> jsstring"
  relative :: "jsstring \<Rightarrow> jsstring \<Rightarrow> jsstring"
  sep :: nat
  localeCompare :: "jsstring \<Rightarrow> jsstring \<Rightarrow> int"
  unicodeLower :: "jsstring \<Rightarrow> jsstring"
  byteLength :: "jsstring \<Rightarrow> nat"
  sha1hex :: "nat list \<Rightarrow> jsstring"
  zipSync :: "(jsstring \<times> content) list \<Rightarrow> nat \<Rightarrow> nat \<Rightarrow> error + nat list"
  now :: nat
  existsSync :: "jsstring \<Rightarrow> bool"
  isDirectory :: "jsstring \<Rightarrow> error + bool"
  confirm :: "error + bool"
  initExtension :: "jsstring \<Rightarrow> error + bool"
  validateManifest :: "jsstring \<Rightarrow> error + bool"
  parseManifest :: "jsstring \<Rightarrow> error + manifest"
  mkdirSync :: "jsstring \<Rightarrow> error + unit"
  readDxtIgnorePatterns :: "jsstring \<Rightarrow> error + jsstring list"
  getAllFilesWithCount ::
    "jsstring \<Rightarrow> jsstring \<Rightarrow> jsstring list \<Rightarrow> error + ((jsstring \<times> content) list \<times> nat)"
  writeFileSync :: "jsstring \<Rightarrow> nat list \<Rightarrow> error + unit"

text \<open>
  What an invocation does to the world is the sequence of its calls, in the order it
  makes them. \<open>Log\<close> and \<open>LogError\<close> are the calls of \<open>logger.log\<close> and
  \<open>logger.error\<close> (a silent logger receives them all the same). \<open>ZipSync\<close> records
  the \<open>files\<close>, the \<open>level\<close> and the \<open>mtime\<close> given to the compressor.
\<close>

datatype event =
    Log jsstring
  | LogError jsstring
  | Confirm
  | InitExtension jsstring
  | ValidateManifest jsstring
  | ParseManifest jsstring
  | MkdirRecursive jsstring
  | ReadDxtIgnorePatterns jsstring
  | GetAllFilesWithCount jsstring jsstring "jsstring list"
  | ZipSync "(jsstring \<times> content) list" nat nat
  | WriteFile jsstring "nat list"

type_synonym outcome = "(error + bool) \<times> event list"

text \<open>The calls \<open>evs\<close> were made, then the rest of the function ran.\<close>

definition emit :: "event list \<Rightarrow> outcome \<Rightarrow> outcome" where
  "emit evs r = (fst r, evs @ snd r)"

section \<open>The report (pack.ts, lines 125-185)\<close>

text \<open>
  \<open>Array.prototype.sort\<close> with a comparator is stable. For a comparator that is a
  total preorder its result is the one stable sorted permutation, which insertion from
  the right computes: an element goes before the first element it does not exceed.
\<close>

fun insertBy :: "('a \<Rightarrow> 'a \<Rightarrow> int) \<Rightarrow> 'a \<Rightarrow> 'a list \<Rightarrow> 'a list" where
  "insertBy cmp x [] = [x]"
| "insertBy cmp x (y # ys) = (if cmp x y \<le> 0 then x # y # ys else y # insertBy cmp x ys)"

definition sortBy :: "('a \<Rightarrow> 'a \<Rightarrow> int) \<Rightarrow> 'a list \<Rightarrow> 'a list" where
  "sortBy cmp xs = foldr (insertBy cmp) xs []"

text \<open>Line 134: \<open>fileEntries.sort(([a], [b]) => a.localeCompare(b))\<close>.\<close>

definition sortEntries :: "env \<Rightarrow> (jsstring \<times> content) list \<Rightarrow> (jsstring \<times> content) list" where
  "sortEntries env fileEntries =
     sortBy (\<lambda>a b. localeCompare env (fst a) (fst b)) fileEntries"

text \<open>\<open>s.split(sep)\<close> for a separator of one code unit; the empty string has one part.\<close>

fun splitOn :: "nat \<Rightarrow> jsstring \<Rightarrow> jsstring list" where
  "splitOn s [] = [[]]"
| "splitOn s (c # cs) =
     (if c = s then [] # splitOn s cs
      else (case splitOn s cs of [] \<Rightarrow> [[c]] | p # ps \<Rightarrow> (c # p) # ps))"

text \<open>\<open>parts.join(d)\<close>.\<close>

fun joinWith :: "jsstring \<Rightarrow> jsstring list \<Rightarrow> jsstring" where
  "joinWith d [] = []"
| "joinWith d [p] = p"
| "joinWith d (p # q # ps) = p @ d @ joinWith d (q # ps)"

definition contentSize :: "env \<Rightarrow> content \<Rightarrow> nat" where
  "contentSize env c = (case c of Text s \<Rightarrow> byteLength env s | Binary b \<Rightarrow> length b)"

text \<open>
  The loop of lines 143-165. \<open>directoryGroups\<close> is a \<open>Map\<close>, which keeps its keys in
  the order of their first insertion: an association list, where \<open>AList.update\<close>
  replaces the value of a key in place and puts a new key last.
\<close>

record group =
  files :: "jsstring list"
  totalSize :: nat

record grouping =
  directoryGroups :: "(jsstring \<times> group) list"
  shallowFiles :: "(jsstring \<times> nat) list"
  totalUnpackedSize :: nat

text \<open>
  The \<open>relPath\<close>, the \<open>parts\<close> and the \<open>groupKey\<close> of an entry (lines 144, 152
  and 155). The \<open>has\<close>, \<open>set\<close>, \<open>get\<close> and \<open>push\<close> of lines 156-161 are one
  update of the group, which starts empty when the key is new.
\<close>

definition relPathOf :: "env \<Rightarrow> jsstring \<Rightarrow> jsstring \<times> content \<Rightarrow> jsstring" where
  "relPathOf env resolvedPath entry = relative env resolvedPath (fst entry)"

definition partsOf :: "env \<Rightarrow> jsstring \<Rightarrow> jsstring \<times> content \<Rightarrow> jsstring list" where
  "partsOf env resolvedPath entry = splitOn (sep env) (relPathOf env resolvedPath entry)"

definition groupKeyOf :: "env \<Rightarrow> jsstring \<Rightarrow> jsstring \<times> content \<Rightarrow> jsstring" where
  "groupKeyOf env resolvedPath entry =
     joinWith (str ''/'') (take 3 (partsOf env resolvedPath entry))"

definition groupStep :: "env \<Rightarrow> jsstring \<Rightarrow> grouping \<Rightarrow> jsstring \<times> content \<Rightarrow> grouping" where
  "groupStep env resolvedPath acc entry =
     (let relPath = relPathOf env resolvedPath entry;
          fileSize = contentSize env (snd entry)
      in if length (partsOf env resolvedPath entry) > 3 then
           (let groupKey = groupKeyOf env resolvedPath entry;
                g = (case map_of (directoryGroups acc) groupKey of
                       None \<Rightarrow> \<lparr>files = [], totalSize = 0\<rparr>
                     | Some g \<Rightarrow> g)
            in acc\<lparr>directoryGroups :=
                     AList.update groupKey
                       \<lparr>files = files g @ [relPath], totalSize = totalSize g + fileSize\<rparr>
                       (directoryGroups acc),
                   totalUnpackedSize := totalUnpackedSize acc + fileSize\<rparr>)
         else acc\<lparr>shallowFiles := shallowFiles acc @ [(relPath, fileSize)],
                  totalUnpackedSize := totalUnpackedSize acc + fileSize\<rparr>)"

definition groupFiles :: "env \<Rightarrow> jsstring \<Rightarrow> (jsstring \<times> content) list \<Rightarrow> grouping" where
  "groupFiles env resolvedPath fileEntries =
     foldl (groupStep env resolvedPath)
       \<lparr>directoryGroups = [], shallowFiles = [], totalUnpackedSize = 0\<rparr> fileEntries"

text \<open>
  The members of the group \<open>k\<close>: the entries of more than three parts whose first three
  parts, joined, are \<open>k\<close>.
\<close>

definition membersOf ::
  "env \<Rightarrow> jsstring \<Rightarrow> jsstring \<Rightarrow> (jsstring \<times> content) list \<Rightarrow> (jsstring \<times> content) list" where
  "membersOf env resolvedPath k fileEntries =
     filter (\<lambda>e. length (partsOf env resolvedPath e) > 3 \<and> groupKeyOf env resolvedPath e = k)
       fileEntries"

text \<open>\<open>s.padStart(8)\<close>: spaces in front, up to eight code units.\<close>

definition padStart8 :: "jsstring \<Rightarrow> jsstring" where
  "padStart8 s = replicate (8 - length s) 32 @ s"

text \<open>Lines 169 and 178: the line of one file.\<close>

definition fileLine :: "nat \<Rightarrow> jsstring \<Rightarrow> jsstring" where
  "fileLine fileSize path = padStart8 (formatFileSize fileSize) @ str '' '' @ path"

text \<open>Line 182: the line of a directory summary.\<close>

definition summaryLine :: "jsstring \<Rightarrow> group \<Rightarrow> jsstring" where
  "summaryLine dir g =
     padStart8 (formatFileSize (totalSize g)) @ str '' '' @ dir @ str ''/ [and ''
       @ decimal (length (files g)) @ str '' more files]''"

text \<open>Lines 173-185: a group of exactly one file prints as that file.\<close>

definition groupLine :: "jsstring \<Rightarrow> group \<Rightarrow> jsstring" where
  "groupLine dir g =
     (case files g of
        [filePath] \<Rightarrow> fileLine (totalSize g) filePath
      | _ \<Rightarrow> summaryLine dir g)"

text \<open>Lines 167-185: the shallow files first, then the groups.\<close>

definition listing :: "grouping \<Rightarrow> jsstring list" where
  "listing r =
     map (\<lambda>f. fileLine (snd f) (fst f)) (shallowFiles r)
       @ map (\<lambda>d. groupLine (fst d) (snd d)) (directoryGroups r)"

text \<open>Lines 199-212.\<close>

definition archiveDetails ::
  "env \<Rightarrow> manifest \<Rightarrow> jsstring \<Rightarrow> nat list \<Rightarrow> nat \<Rightarrow> nat \<Rightarrow> nat \<Rightarrow> jsstring list" where
  "archiveDetails env m finalOutputPath zipData unpacked totalFiles ignoredCount =
     [str [CHR 0x0A] @ str ''Archive Details'',
      str ''name: '' @ name m,
      str ''version: '' @ version m,
      str ''filename: '' @ sanitizeNameForFilename (unicodeLower env) (name m)
        @ str ''-'' @ version m @ str ''.dxt'',
      str ''package size: '' @ formatFileSize (length zipData),
      str ''unpacked size: '' @ formatFileSize unpacked,
      str ''shasum: '' @ sha1hex env zipData,
      str ''total files: '' @ decimal totalFiles,
      str ''ignored (.dxtignore) files: '' @ decimal ignoredCount,
      str [CHR 0x0A] @ str ''Output: '' @ finalOutputPath]"

section \<open>packExtension (pack.ts, lines 47-222)\<close>

text \<open>
  Lines 187-213: the archive is built in memory, written in one call, hashed and
  reported. What \<open>zipSync\<close> or \<open>writeFileSync\<close> throws leaves the \<open>try\<close> block.
\<close>

definition buildAndWrite ::
  "env \<Rightarrow> manifest \<Rightarrow> jsstring \<Rightarrow> (jsstring \<times> content) list \<Rightarrow> nat \<Rightarrow> nat \<Rightarrow> nat \<Rightarrow> outcome" where
  "buildAndWrite env m finalOutputPath allFiles ignoredCount unpacked totalFiles =
     emit [ZipSync allFiles 9 (now env)]
       (case zipSync env allFiles 9 (now env) of
          Inl e \<Rightarrow> (Inl e, [])
        | Inr zipData \<Rightarrow>
            emit [WriteFile finalOutputPath zipData]
              (case writeFileSync env finalOutputPath zipData of
                 Inl e \<Rightarrow> (Inl e, [])
               | Inr u \<Rightarrow>
                   (Inr True,
                    map Log (archiveDetails env m finalOutputPath zipData unpacked
                               totalFiles ignoredCount))))"

text \<open>Lines 125-185: the header and the listing, as logged.\<close>

definition contentsLines ::
  "env \<Rightarrow> jsstring \<Rightarrow> manifest \<Rightarrow> (jsstring \<times> content) list \<Rightarrow> jsstring list" where
  "contentsLines env resolvedPath m allFiles =
     [str [CHR 0x0A] @ [55357, 56550] @ str ''  '' @ name m @ str ''@'' @ version m,
      str ''Archive Contents'']
     @ listing (groupFiles env resolvedPath (sortEntries env allFiles))"

text \<open>Lines 125-213: the report of the contents, then the archive.\<close>

definition report ::
  "env \<Rightarrow> jsstring \<Rightarrow> manifest \<Rightarrow> jsstring \<Rightarrow> (jsstring \<times> content) list \<Rightarrow> nat \<Rightarrow> outcome" where
  "report env resolvedPath m finalOutputPath allFiles ignoredCount =
     (let fileEntries = sortEntries env allFiles
      in emit (map Log (contentsLines env resolvedPath m allFiles))
           (buildAndWrite env m finalOutputPath allFiles ignoredCount
              (totalUnpackedSize (groupFiles env resolvedPath fileEntries))
              (length fileEntries)))"

text \<open>Lines 114-123: the ignore patterns, then the files.\<close>

definition discover ::
  "env \<Rightarrow> jsstring \<Rightarrow> error + ((jsstring \<times> content) list \<times> nat)" where
  "discover env resolvedPath =
     (case readDxtIgnorePatterns env resolvedPath of
        Inl e \<Rightarrow> Inl e
      | Inr dxtIgnorePatterns \<Rightarrow>
          getAllFilesWithCount env resolvedPath resolvedPath dxtIgnorePatterns)"

definition discoverEvents :: "env \<Rightarrow> jsstring \<Rightarrow> event list" where
  "discoverEvents env resolvedPath =
     ReadDxtIgnorePatterns resolvedPath #
       (case readDxtIgnorePatterns env resolvedPath of
          Inl e \<Rightarrow> []
        | Inr dxtIgnorePatterns \<Rightarrow>
            [GetAllFilesWithCount resolvedPath resolvedPath dxtIgnorePatterns])"

text \<open>The body of the \<open>try\<close> block, lines 114-213.\<close>

definition tryBody :: "env \<Rightarrow> jsstring \<Rightarrow> manifest \<Rightarrow> jsstring \<Rightarrow> outcome" where
  "tryBody env resolvedPath m finalOutputPath =
     emit (discoverEvents env resolvedPath)
       (case discover env resolvedPath of
          Inl e \<Rightarrow> (Inl e, [])
        | Inr found \<Rightarrow> report env resolvedPath m finalOutputPath (fst found) (snd found))"

text \<open>The \<open>catch\<close> block, lines 214-221: whatever was thrown, the result is \<open>false\<close>.\<close>

definition archiveErrorLine :: "error \<Rightarrow> jsstring" where
  "archiveErrorLine e =
     (case e of
        Error message \<Rightarrow> str ''ERROR: Archive error: '' @ message
      | Thrown \<Rightarrow> str ''ERROR: Unknown archive error occurred'')"

definition catchArchiveError :: "outcome \<Rightarrow> outcome" where
  "catchArchiveError r =
     (case fst r of
        Inl e \<Rightarrow> (Inr False, snd r @ [LogError (archiveErrorLine e)])
      | Inr b \<Rightarrow> r)"

text \<open>
  Lines 103-107. An empty \<open>outputPath\<close> is falsy, so the conditional takes the default
  for it as it does for a missing one.
\<close>

definition finalOutputPathOf :: "env \<Rightarrow> PackOptions \<Rightarrow> jsstring" where
  "finalOutputPathOf env opts =
     (let extensionName = basename env (resolve env (extensionPath opts))
      in case outputPath opts of
           None \<Rightarrow> resolve env (extensionName @ str ''.dxt'')
         | Some p \<Rightarrow>
             (if p = [] then resolve env (extensionName @ str ''.dxt'') else resolve env p))"

definition outputDirOf :: "env \<Rightarrow> PackOptions \<Rightarrow> jsstring" where
  "outputDirOf env opts = join env (finalOutputPathOf env opts) (str ''..'')"

text \<open>Lines 103-221: \<open>mkdirSync\<close> is outside the \<open>try\<close> block; what it throws is not caught.\<close>

definition writeStage :: "env \<Rightarrow> PackOptions \<Rightarrow> manifest \<Rightarrow> outcome" where
  "writeStage env opts m =
     emit [MkdirRecursive (outputDirOf env opts)]
       (case mkdirSync env (outputDirOf env opts) of
          Inl e \<Rightarrow> (Inl e, [])
        | Inr u \<Rightarrow>
            catchArchiveError
              (tryBody env (resolve env (extensionPath opts)) m (finalOutputPathOf env opts)))"

text \<open>Lines 82-101: validation, then the parse with its own \<open>catch\<close>.\<close>

definition validateStage :: "env \<Rightarrow> PackOptions \<Rightarrow> outcome" where
  "validateStage env opts =
     (let manifestPath = join env (resolve env (extensionPath opts)) (str ''manifest.json'')
      in emit [Log (str ''Validating manifest...''), ValidateManifest manifestPath]
           (case validateManifest env manifestPath of
              Inl e \<Rightarrow> (Inl e, [])
            | Inr False \<Rightarrow>
                (Inr False, [LogError (str ''ERROR: Cannot pack extension with invalid manifest'')])
            | Inr True \<Rightarrow>
                emit [ParseManifest manifestPath]
                  (case parseManifest env manifestPath of
                     Inl (Error message) \<Rightarrow>
                       (Inr False,
                        [LogError (str ''ERROR: Failed to parse manifest.json''),
                         LogError (str ''  '' @ message)])
                   | Inl Thrown \<Rightarrow>
                       (Inr False, [LogError (str ''ERROR: Failed to parse manifest.json'')])
                   | Inr m \<Rightarrow> writeStage env opts m)))"

text \<open>Lines 61-80: without a manifest the user is asked, and \<open>initExtension\<close> may run.\<close>

definition manifestStage :: "env \<Rightarrow> PackOptions \<Rightarrow> outcome" where
  "manifestStage env opts =
     (let manifestPath = join env (resolve env (extensionPath opts)) (str ''manifest.json'')
      in if existsSync env manifestPath then validateStage env opts
         else
           emit [Log (str ''No manifest.json found in '' @ extensionPath opts), Confirm]
             (case confirm env of
                Inl e \<Rightarrow> (Inl e, [])
              | Inr True \<Rightarrow>
                  emit [InitExtension (extensionPath opts)]
                    (case initExtension env (extensionPath opts) of
                       Inl e \<Rightarrow> (Inl e, [])
                     | Inr True \<Rightarrow> validateStage env opts
                     | Inr False \<Rightarrow>
                         (Inr False, [LogError (str ''ERROR: Failed to create manifest'')]))
              | Inr False \<Rightarrow>
                  (Inr False,
                   [LogError (str ''ERROR: Cannot pack extension without manifest.json'')])))"

text \<open>
  Lines 52-59. The result is \<open>Inr b\<close> when the promise resolves to \<open>b\<close>, and \<open>Inl e\<close>
  when it rejects with \<open>e\<close>.
\<close>

definition packExtension :: "env \<Rightarrow> PackOptions \<Rightarrow> outcome" where
  "packExtension env opts =
     (let resolvedPath = resolve env (extensionPath opts);
          notFound = (Inr False, [LogError (str ''ERROR: Directory not found: '' @ extensionPath opts)])
      in if existsSync env resolvedPath then
           (case isDirectory env resolvedPath of
              Inl e \<Rightarrow> (Inl e, [])
            | Inr True \<Rightarrow> manifestStage env opts
            | Inr False \<Rightarrow> notFound)
         else notFound)"

section \<open>Reading a trace\<close>

fun writeOf :: "event \<Rightarrow> (jsstring \<times> nat list) option" where
  "writeOf (WriteFile p d) = Some (p, d)"
| "writeOf e = None"

fun zipOf :: "event \<Rightarrow> ((jsstring \<times> content) list \<times> nat \<times> nat) option" where
  "zipOf (ZipSync fs level mtime) = Some (fs, level, mtime)"
| "zipOf e = None"

fun logOf :: "event \<Rightarrow> jsstring option" where
  "logOf (Log s) = Some s"
| "logOf e = None"

text \<open>
  The calls of lines 109-197: the output directory, discovery, the compressor and the
  write. Everything before line 109 makes none of them.
\<close>

fun archiveEvent :: "event \<Rightarrow> bool" where
  "archiveEvent (MkdirRecursive p) = True"
| "archiveEvent (ReadDxtIgnorePatterns p) = True"
| "archiveEvent (GetAllFilesWithCount p q ps) = True"
| "archiveEvent (ZipSync fs level mtime) = True"
| "archiveEvent (WriteFile p d) = True"
| "archiveEvent e = False"

text \<open>The files written, the calls of the compressor and the lines logged, in order.\<close>

definition writes :: "event list \<Rightarrow> (jsstring \<times> nat list) list" where
  "writes evs = List.map_filter writeOf evs"

definition zipCalls :: "event list \<Rightarrow> ((jsstring \<times> content) list \<times> nat \<times> nat) list" where
  "zipCalls evs = List.map_filter zipOf evs"

definition logged :: "event list \<Rightarrow> jsstring list" where
  "logged evs = List.map_filter logOf evs"

section \<open>A sample environment\<close>

text \<open>
  An environment to run the model in. The process runs in \<open>/work/ext\<close>, which holds a
  valid manifest, and packs \<open>.\<close>; discovery finds the files \<open>fs\<close> and the clock reads
  \<open>clock\<close>. The path functions agree with Node's (POSIX) on the paths that occur below,
  \<open>compareCodeUnits\<close> with \<open>localeCompare\<close> on the keys that occur below.
  \<open>storeArchive\<close> stands in for the compressor: like a zip container it records the
  \<open>mtime\<close> it is given, next to the level and the entries. \<open>sumDigest\<close> stands in for
  the digest.
\<close>

fun compareCodeUnits :: "jsstring \<Rightarrow> jsstring \<Rightarrow> int" where
  "compareCodeUnits [] [] = 0"
| "compareCodeUnits [] (b # bs) = - 1"
| "compareCodeUnits (a # as) [] = 1"
| "compareCodeUnits (a # as) (b # bs) =
     (if a < b then - 1 else if b < a then 1 else compareCodeUnits as bs)"

definition sampleResolve :: "jsstring \<Rightarrow> jsstring" where
  "sampleResolve p =
     (case p of
        [] \<Rightarrow> str ''/work/ext''
      | c # cs \<Rightarrow>
          (if c = 47 then p
           else if p = str ''.'' then str ''/work/ext''
           else str ''/work/ext/'' @ p))"

definition sampleBasename :: "jsstring \<Rightarrow> jsstring" where
  "sampleBasename p = last (splitOn 47 p)"

definition sampleJoin :: "jsstring \<Rightarrow> jsstring \<Rightarrow> jsstring" where
  "sampleJoin a b =
     (if b = str ''..'' then joinWith (str ''/'') (butlast (splitOn 47 a))
      else a @ str ''/'' @ b)"

definition contentBytes :: "content \<Rightarrow> nat list" where
  "contentBytes c = (case c of Text s \<Rightarrow> s | Binary b \<Rightarrow> b)"

definition storeArchive :: "(jsstring \<times> content) list \<Rightarrow> nat \<Rightarrow> nat \<Rightarrow> error + nat list" where
  "storeArchive fs level mtime =
     Inr ([level, mtime] @ concat (map (\<lambda>f. fst f @ [0] @ contentBytes (snd f)) fs))"

definition sumDigest :: "nat list \<Rightarrow> jsstring" where
  "sumDigest d = decimal (sum_list d)"

definition sampleManifest :: manifest where
  "sampleManifest = \<lparr>name = str ''My Ext!'', version = str ''1.2.0''\<rparr>"

definition sampleEnv :: "(jsstring \<times> content) list \<Rightarrow> nat \<Rightarrow> env" where
  "sampleEnv fs clock =
     \<lparr>resolve = sampleResolve,
      basename = sampleBasename,
      join = sampleJoin,
      relative = (\<lambda>from to. to),
      sep = 47,
      localeCompare = compareCodeUnits,
      unicodeLower = (\<lambda>s. s),
      byteLength = length,
      sha1hex = sumDigest,
      zipSync = storeArchive,
      now = clock,
      existsSync = (\<lambda>p. p = str ''/work/ext'' \<or> p = str ''/work/ext/manifest.json''),
      isDirectory = (\<lambda>p. Inr (p = str ''/work/ext'')),
      confirm = Inr True,
      initExtension = (\<lambda>p. Inr True),
      validateManifest = (\<lambda>p. Inr True),
      parseManifest = (\<lambda>p. Inr sampleManifest),
      mkdirSync = (\<lambda>p. Inr ()),
      readDxtIgnorePatterns = (\<lambda>p. Inr []),
      getAllFilesWithCount = (\<lambda>dir base patterns. Inr (fs, 0)),
      writeFileSync = (\<lambda>p d. Inr ())\<rparr>"

definition sampleOptions :: PackOptions where
  "sampleOptions = \<lparr>extensionPath = str ''.'', outputPath = None, silent = None\<rparr>"

definition sampleFiles :: "(jsstring \<times> content) list" where
  "sampleFiles =
     [(str ''server/main.py'', Binary [112, 97, 115, 115]),
      (str ''server/lib/dep.py'', Binary [])]"

text \<open>
  The sample environment where reading the directory fails, and the one where the
  directory has no manifest, the user answers \<open>answer\<close> and \<open>initExtension\<close>
  returns \<open>created\<close>.
\<close>

definition brokenDiscoveryEnv :: env where
  "brokenDiscoveryEnv =
     (sampleEnv sampleFiles 1000)
       \<lparr>getAllFilesWithCount := (\<lambda>dir base patterns. Inl (Error (str ''EACCES'')))\<rparr>"

definition noManifestEnv :: "bool \<Rightarrow> bool \<Rightarrow> env" where
  "noManifestEnv answer created =
     (sampleEnv sampleFiles 1000)
       \<lparr>existsSync := (\<lambda>p. p = str ''/work/ext''),
        confirm := Inr answer,
        initExtension := (\<lambda>p. Inr created)\<rparr>"

text \<open>Entries to run the grouping loop on: a key and a few bytes each.\<close>

definition fileZ :: "jsstring \<times> content" where
  "fileZ = (str ''z.txt'', Binary [7, 8, 9])"

definition fileABCDE :: "jsstring \<times> content" where
  "fileABCDE = (str ''a/b/c/d/e.txt'', Binary [2, 3, 4, 5, 6])"




text \<open>Whether a string has two hyphens next to each other.\<close>

fun adjacentHyphens :: "jsstring \<Rightarrow> bool" where
  "adjacentHyphens (c # d # cs) =
     (if isHyphen c \<and> isHyphen d then True else adjacentHyphens (d # cs))"
| "adjacentHyphens cs = False"

section \<open>formatFileSize\<close>

lemma tenths_nearest:
  assumes "0 < den"
  shows "2 * \<bar>10 * int num - int den * int (tenths num den)\<bar> \<le> int den"
proof -
  define t where "t = tenths num den"
  define r where "r = (20 * num + den) mod (2 * den)"
  define p where "p = int den * int t"
  have e: "20 * num + den = 2 * den * t + r"
    unfolding t_def r_def tenths_def by simp
  have "r < 2 * den"
    unfolding r_def using assms by simp
  then have rlt: "int r < 2 * int den"
    by linarith
  have r0: "0 \<le> int r"
    by simp
  have "int (20 * num + den) = int (2 * den * t + r)"
    using e by simp
  then have "20 * int num + int den = 2 * p + int r"
    unfolding p_def by simp
  then have "2 * \<bar>10 * int num - p\<bar> \<le> int den"
    using rlt r0 by arith
  then show ?thesis unfolding p_def t_def .
qed

text \<open>
  C3. Below 1024 the result is the whole number and \<open>B\<close>. From 1024 and below 1048576
  it is \<open>t / 10\<close> written with exactly one decimal and \<open>kB\<close>, where \<open>t / 10\<close> is the
  tenth nearest to \<open>n / 1024\<close>; from 1048576 on the same with \<open>n / 1048576\<close> and \<open>MB\<close>.
  The four boundary values are as the specification lists them.
\<close>

theorem formatFileSize_rendering:
  "(n < 1024 \<longrightarrow> formatFileSize n = decimal n @ str ''B'') \<and>
   (1024 \<le> n \<and> n < 1048576 \<longrightarrow>
      (\<exists>t. formatFileSize n = decimal (t div 10) @ str ''.'' @ [48 + t mod 10] @ str ''kB''
         \<and> 2 * \<bar>10 * int n - 1024 * int t\<bar> \<le> 1024)) \<and>
   (1048576 \<le> n \<longrightarrow>
      (\<exists>t. formatFileSize n = decimal (t div 10) @ str ''.'' @ [48 + t mod 10] @ str ''MB''
         \<and> 2 * \<bar>10 * int n - 1048576 * int t\<bar> \<le> 1048576)) \<and>
   formatFileSize 1023 = str ''1023B'' \<and>
   formatFileSize 1024 = str ''1.0kB'' \<and>
   formatFileSize 1048575 = str ''1024.0kB'' \<and>
   formatFileSize 1048576 = str ''1.0MB''"
proof (intro conjI impI)
  assume "n < 1024"
  then show "formatFileSize n = decimal n @ str ''B''"
    by (simp add: formatFileSize_def)
next
  assume a: "1024 \<le> n \<and> n < 1048576"
  have "2 * \<bar>10 * int n - int 1024 * int (tenths n 1024)\<bar> \<le> int 1024"
    by (rule tenths_nearest) simp
  with a show "\<exists>t. formatFileSize n = decimal (t div 10) @ str ''.'' @ [48 + t mod 10] @ str ''kB''
         \<and> 2 * \<bar>10 * int n - 1024 * int t\<bar> \<le> 1024"
    by (intro exI [of _ "tenths n 1024"]) (simp add: formatFileSize_def toFixed1_def)
next
  assume a: "1048576 \<le> n"
  have "2 * \<bar>10 * int n - int 1048576 * int (tenths n 1048576)\<bar> \<le> int 1048576"
    by (rule tenths_nearest) simp
  with a show "\<exists>t. formatFileSize n = decimal (t div 10) @ str ''.'' @ [48 + t mod 10] @ str ''MB''
         \<and> 2 * \<bar>10 * int n - 1048576 * int t\<bar> \<le> 1048576"
    by (intro exI [of _ "tenths n 1048576"]) (simp add: formatFileSize_def toFixed1_def)
next
  show "formatFileSize 1023 = str ''1023B''"
    by (simp add: formatFileSize_def str_def decimal.simps)
  show "formatFileSize 1024 = str ''1.0kB''"
    by (simp add: formatFileSize_def toFixed1_def tenths_def str_def decimal.simps)
  show "formatFileSize 1048575 = str ''1024.0kB''"
    by (simp add: formatFileSize_def toFixed1_def tenths_def str_def decimal.simps)
  show "formatFileSize 1048576 = str ''1.0MB''"
    by (simp add: formatFileSize_def toFixed1_def tenths_def str_def decimal.simps)
qed

theorem formatFileSize_rendering_witness:
  "(500::nat) < 1024 \<and> formatFileSize 500 = str ''500B'' \<and>
   (1024::nat) \<le> 1536 \<and> (1536::nat) < 1048576 \<and> formatFileSize 1536 = str ''1.5kB'' \<and>
   (1048576::nat) \<le> 3145728 \<and> formatFileSize 3145728 = str ''3.0MB''"
  using formatFileSize_rendering [of 500] formatFileSize_rendering [of 1536]
    formatFileSize_rendering [of 3145728]
  by (simp add: formatFileSize_def toFixed1_def tenths_def str_def decimal.simps)

section \<open>sanitizeNameForFilename\<close>

lemma list_all_replaceRuns:
  "list_all Q s \<Longrightarrow> Q 45 \<Longrightarrow> list_all Q (replaceRuns P s)"
proof (induction P s rule: replaceRuns.induct)
  case (1 P)
  then show ?case by simp
next
  case (2 P c cs)
  have "list_all Q (dropWhile P cs)"
    using "2.prems"(1) by (auto simp add: list_all_iff dest: set_dropWhileD)
  with 2 show ?case by simp
qed

lemma rev_dropWhile_rev: "\<exists>k. rev (dropWhile P (rev t)) = take k t"
proof -
  define n where "n = length (takeWhile P (rev t))"
  have "rev (dropWhile P (rev t)) = rev (drop n (rev t))"
    by (simp only: dropWhile_eq_drop n_def)
  also have "\<dots> = take (length (rev t) - n) (rev (rev t))"
    by (rule rev_drop)
  also have "\<dots> = take (length t - n) t"
    by simp
  finally show ?thesis
    by blast
qed

lemma trimHyphens_take: "\<exists>k. trimHyphens s = take k (dropWhile isHyphen s)"
  unfolding trimHyphens_def by (rule rev_dropWhile_rev)

lemma sanitize_length: "length (sanitizeNameForFilename ulc s) \<le> 100"
  by (simp add: sanitizeNameForFilename_def)

lemma set_trimHyphens: "set (trimHyphens s) \<subseteq> set s"
proof -
  obtain k where "trimHyphens s = take k (dropWhile isHyphen s)"
    using trimHyphens_take by blast
  then have "set (trimHyphens s) \<subseteq> set (dropWhile isHyphen s)"
    by (simp add: set_take_subset)
  also have "\<dots> \<subseteq> set s"
    by (rule subsetI) (rule set_dropWhileD)
  finally show ?thesis .
qed

lemma sanitize_chars: "list_all isFilenameChar (sanitizeNameForFilename ulc s)"
proof -
  let ?a = "filter isFilenameChar (replaceRuns isWhiteSpace (toLowerCase ulc s))"
  have "list_all isFilenameChar ?a"
    by (simp add: list_all_iff)
  then have "list_all isFilenameChar (replaceRuns isHyphen ?a)"
    by (rule list_all_replaceRuns) (simp add: isFilenameChar_def)
  then have a: "\<forall>c \<in> set (replaceRuns isHyphen ?a). isFilenameChar c"
    by (simp only: list_all_iff)
  have "set (sanitizeNameForFilename ulc s) \<subseteq> set (trimHyphens (replaceRuns isHyphen ?a))"
    unfolding sanitizeNameForFilename_def by (rule set_take_subset)
  also have "\<dots> \<subseteq> set (replaceRuns isHyphen ?a)"
    by (rule set_trimHyphens)
  finally have "\<forall>c \<in> set (sanitizeNameForFilename ulc s). isFilenameChar c"
    using a by blast
  then show ?thesis
    by (simp only: list_all_iff)
qed

lemma hd_take: "0 < k \<Longrightarrow> hd (take k xs) = hd xs"
  by (cases xs; cases k) simp_all

lemma sanitize_no_leading_hyphen:
  assumes "sanitizeNameForFilename ulc s \<noteq> []"
  shows "hd (sanitizeNameForFilename ulc s) \<noteq> 45"
proof -
  define b where "b = replaceRuns isHyphen (filter isFilenameChar
      (replaceRuns isWhiteSpace (toLowerCase ulc s)))"
  obtain k where k: "trimHyphens b = take k (dropWhile isHyphen b)"
    using trimHyphens_take by blast
  have r: "sanitizeNameForFilename ulc s = take (min 100 k) (dropWhile isHyphen b)"
    unfolding sanitizeNameForFilename_def b_def [symmetric] k by simp
  have ne: "dropWhile isHyphen b \<noteq> []"
    using assms unfolding r by auto
  have pos: "0 < min 100 k"
    using assms unfolding r by (cases "min 100 k") simp_all
  have "hd (sanitizeNameForFilename ulc s) = hd (dropWhile isHyphen b)"
    unfolding r using pos by (rule hd_take)
  moreover have "\<not> isHyphen (hd (dropWhile isHyphen b))"
    using ne by (rule hd_dropWhile)
  ultimately show ?thesis
    by (simp add: isHyphen_def)
qed

lemma adjacentHyphens_Cons: "adjacentHyphens cs \<Longrightarrow> adjacentHyphens (c # cs)"
  by (cases cs) simp_all

lemma adjacentHyphens_drop: "adjacentHyphens (drop n s) \<Longrightarrow> adjacentHyphens s"
proof (induction n arbitrary: s)
  case 0
  then show ?case by simp
next
  case (Suc n)
  then show ?case
    by (cases s) (auto intro: adjacentHyphens_Cons)
qed

lemma adjacentHyphens_take: "adjacentHyphens (take n s) \<Longrightarrow> adjacentHyphens s"
proof (induction s arbitrary: n)
  case Nil
  then show ?case by simp
next
  case (Cons c cs)
  show ?case
  proof (cases cs)
    case Nil
    with Cons.prems show ?thesis
      by (cases n) simp_all
  next
    case tail: (Cons d ds)
    show ?thesis
    proof (cases n)
      case 0
      with Cons.prems show ?thesis by simp
    next
      case n: (Suc m)
      show ?thesis
      proof (cases m)
        case 0
        with n Cons.prems show ?thesis by simp
      next
        case (Suc k)
        with n tail Cons.prems Cons.IH [of m] show ?thesis
          by (auto split: if_splits)
      qed
    qed
  qed
qed

lemma replaceRuns_not_adjacent: "\<not> adjacentHyphens (replaceRuns isHyphen s)"
proof (induction "length s" arbitrary: s rule: less_induct)
  case less
  show ?case
  proof (cases s)
    case Nil
    then show ?thesis by simp
  next
    case (Cons c cs)
    show ?thesis
    proof (cases "isHyphen c")
      case True
      have "length (dropWhile isHyphen cs) < length s"
        using Cons by (simp add: less_Suc_eq_le length_dropWhile_le)
      then have IH: "\<not> adjacentHyphens (replaceRuns isHyphen (dropWhile isHyphen cs))"
        by (rule less)
      show ?thesis
      proof (cases "dropWhile isHyphen cs")
        case Nil
        with True Cons show ?thesis by (simp del: dropWhile_eq_Nil_conv)
      next
        case d: (Cons d ds)
        then have "\<not> isHyphen d"
          using hd_dropWhile [of isHyphen cs] by simp
        with True Cons d IH show ?thesis by simp
      qed
    next
      case False
      have "\<not> adjacentHyphens (replaceRuns isHyphen cs)"
        by (rule less) (simp add: Cons)
      with False Cons show ?thesis
        by (cases "replaceRuns isHyphen cs") simp_all
    qed
  qed
qed

lemma dropWhile_hd_id: "xs \<noteq> [] \<Longrightarrow> \<not> P (hd xs) \<Longrightarrow> dropWhile P xs = xs"
  by (cases xs) simp_all

lemma replaceRuns_id_not_adjacent:
  "\<not> adjacentHyphens s \<Longrightarrow> replaceRuns isHyphen s = s"
proof (induction s)
  case Nil
  then show ?case by simp
next
  case (Cons c cs)
  have tl: "\<not> adjacentHyphens cs"
    using Cons.prems adjacentHyphens_Cons by blast
  then have IH: "replaceRuns isHyphen cs = cs"
    by (rule Cons.IH)
  show ?case
  proof (cases "isHyphen c")
    case True
    then have c: "c = 45"
      by (simp add: isHyphen_def)
    have d: "dropWhile isHyphen cs = cs"
      using Cons.prems True by (cases cs) (simp_all split: if_splits)
    show ?thesis
      using True by (simp add: d IH c)
  next
    case False
    then show ?thesis by (simp add: IH)
  qed
qed

lemma replaceRuns_id_none: "list_all (\<lambda>c. \<not> P c) s \<Longrightarrow> replaceRuns P s = s"
  by (induction s) simp_all

lemma trimHyphens_id:
  assumes "s = [] \<or> (hd s \<noteq> 45 \<and> last s \<noteq> 45)"
  shows "trimHyphens s = s"
proof (cases s)
  case Nil
  then show ?thesis by (simp add: trimHyphens_def)
next
  case (Cons c cs)
  with assms have h: "\<not> isHyphen (hd s)" and l: "\<not> isHyphen (last s)"
    by (simp_all add: isHyphen_def)
  have a: "dropWhile isHyphen s = s"
    using h Cons by simp
  have "rev s \<noteq> []"
    using Cons by simp
  moreover have "hd (rev s) = last s"
    using Cons by (simp add: hd_rev)
  ultimately have b: "dropWhile isHyphen (rev s) = rev s"
    using l by (intro dropWhile_hd_id) simp_all
  show ?thesis
    by (simp add: trimHyphens_def a b)
qed

lemma filenameChar_facts:
  assumes "isFilenameChar c"
  shows "c < 128" "asciiLower c = c" "\<not> isWhiteSpace c"
  using assms by (auto simp add: isFilenameChar_def asciiLower_def isWhiteSpace_def)

lemma sanitize_not_adjacent: "\<not> adjacentHyphens (sanitizeNameForFilename ulc s)"
proof -
  define b where "b = replaceRuns isHyphen (filter isFilenameChar
      (replaceRuns isWhiteSpace (toLowerCase ulc s)))"
  obtain k where k: "trimHyphens b = take k (dropWhile isHyphen b)"
    using trimHyphens_take by blast
  have r: "sanitizeNameForFilename ulc s
      = take (min 100 k) (drop (length (takeWhile isHyphen b)) b)"
    unfolding sanitizeNameForFilename_def b_def [symmetric] k by (simp add: dropWhile_eq_drop)
  have "\<not> adjacentHyphens b"
    unfolding b_def by (rule replaceRuns_not_adjacent)
  then show ?thesis
    unfolding r using adjacentHyphens_take adjacentHyphens_drop by blast
qed

text \<open>
  What does hold of the sanitizer: on a result that does not end in a hyphen, a second
  application changes nothing.
\<close>

lemma sanitize_idempotent_without_trailing_hyphen:
  assumes "sanitizeNameForFilename ulc s = [] \<or> last (sanitizeNameForFilename ulc s) \<noteq> 45"
  shows "sanitizeNameForFilename ulc (sanitizeNameForFilename ulc s)
    = sanitizeNameForFilename ulc s"
proof -
  define u where "u = sanitizeNameForFilename ulc s"
  have chars: "list_all isFilenameChar u"
    unfolding u_def by (rule sanitize_chars)
  have len: "length u \<le> 100"
    unfolding u_def by (rule sanitize_length)
  have low: "toLowerCase ulc u = u"
    using chars by (auto simp add: toLowerCase_def list_all_iff filenameChar_facts intro: map_idI)
  have ws: "replaceRuns isWhiteSpace u = u"
    using chars by (intro replaceRuns_id_none) (auto simp add: list_all_iff filenameChar_facts)
  have keep: "filter isFilenameChar u = u"
    using chars by (simp add: list_all_iff)
  have hy: "replaceRuns isHyphen u = u"
    unfolding u_def by (intro replaceRuns_id_not_adjacent sanitize_not_adjacent)
  have "u = [] \<or> (hd u \<noteq> 45 \<and> last u \<noteq> 45)"
    using assms sanitize_no_leading_hyphen [of ulc s] unfolding u_def by blast
  then have trim: "trimHyphens u = u"
    by (rule trimHyphens_id)
  have "sanitizeNameForFilename ulc u = u"
    by (simp add: sanitizeNameForFilename_def low ws keep hy trim len)
  then show ?thesis
    unfolding u_def .
qed

lemma replaceRuns_replicate:
  "\<not> P x \<Longrightarrow> replaceRuns P (replicate n x @ ys) = replicate n x @ replaceRuns P ys"
  by (induction n) simp_all

lemma sanitize_steps:
  assumes low: "toLowerCase ulc s = s"
    and ws: "replaceRuns isWhiteSpace s = s"
    and keep: "filter isFilenameChar s = s"
    and hy: "replaceRuns isHyphen s = s"
  shows "sanitizeNameForFilename ulc s = take 100 (trimHyphens s)"
  by (simp add: sanitizeNameForFilename_def low ws keep hy)

lemma long_name_steps:
  fixes s :: jsstring
  assumes "s = replicate 99 97 @ [45, 98] \<or> s = replicate 99 97 @ [45]"
  shows "sanitizeNameForFilename ulc s = take 100 (trimHyphens s)"
proof (rule sanitize_steps)
  show "toLowerCase ulc s = s"
    using assms by (auto simp add: toLowerCase_def list_all_iff asciiLower_def)
  show "replaceRuns isWhiteSpace s = s"
    using assms by (auto simp add: replaceRuns_replicate isWhiteSpace_def)
  show "filter isFilenameChar s = s"
    using assms by (auto simp add: isFilenameChar_def)
  show "replaceRuns isHyphen s = s"
    using assms by (auto simp add: replaceRuns_replicate isHyphen_def)
qed

lemma trim_long_name:
  "trimHyphens (replicate 99 97 @ [45, 98]) = replicate 99 97 @ [45, 98]"
  "trimHyphens (replicate 99 97 @ [45]) = replicate 99 97"
  by (simp_all add: trimHyphens_def isHyphen_def)

text \<open>
  C2. The claim fails on the code at a name of 99 letters \<open>a\<close> followed by \<open>-b\<close>: the
  hyphens are trimmed on line 43 and the string is cut to 100 code units on line 44, so
  the result is the 99 letters and a hyphen, which ends in a hyphen, and sanitizing that
  result gives the 99 letters alone, another string.
\<close>

theorem sanitizeNameForFilename_truncation:
  "sanitizeNameForFilename ulc (replicate 99 97 @ str ''-b'') = replicate 99 97 @ str ''-''
   \<and> sanitizeNameForFilename ulc (replicate 99 97 @ str ''-'') = replicate 99 97"
  using long_name_steps [of "replicate 99 97 @ [45, 98]" ulc]
    long_name_steps [of "replicate 99 97 @ [45]" ulc]
  by (simp add: trim_long_name str_def)

section \<open>The grouping loop\<close>

lemma groupFiles_Nil:
  "groupFiles env p [] = \<lparr>directoryGroups = [], shallowFiles = [], totalUnpackedSize = 0\<rparr>"
  by (simp add: groupFiles_def)

lemma groupFiles_snoc:
  "groupFiles env p (es @ [e]) = groupStep env p (groupFiles env p es) e"
  by (simp add: groupFiles_def)

lemma membersOf_Nil [simp]: "membersOf env p k [] = []"
  by (simp add: membersOf_def)


lemma shallowFiles_groupFiles:
  "shallowFiles (groupFiles env p es) =
     map (\<lambda>e. (relPathOf env p e, contentSize env (snd e)))
       (filter (\<lambda>e. \<not> 3 < length (partsOf env p e)) es)"
  by (induction es rule: rev_induct)
    (simp_all add: groupFiles_Nil groupFiles_snoc groupStep_def Let_def)

lemma totalUnpackedSize_groupFiles:
  "totalUnpackedSize (groupFiles env p es) = sum_list (map (\<lambda>e. contentSize env (snd e)) es)"
  by (induction es rule: rev_induct)
    (simp_all add: groupFiles_Nil groupFiles_snoc groupStep_def Let_def)



lemma keys_directoryGroups:
  "map fst (directoryGroups (groupFiles env p es)) =
     rev (remdups (rev (map (groupKeyOf env p)
       (filter (\<lambda>e. 3 < length (partsOf env p e)) es))))"
  by (induction es rule: rev_induct)
    (auto simp add: groupFiles_Nil groupFiles_snoc groupStep_def Let_def update_keys)




section \<open>The sort of line 134\<close>

lemma mset_insertBy: "mset (insertBy cmp x ys) = add_mset x (mset ys)"
  by (induction ys) simp_all

lemma mset_sortBy: "mset (sortBy cmp xs) = mset xs"
  by (induction xs) (simp_all add: sortBy_def mset_insertBy)

lemma set_insertBy: "set (insertBy cmp x ys) = insert x (set ys)"
  by (induction ys) auto

lemma sorted_insertBy:
  assumes total: "\<And>a b. cmp a b \<le> 0 \<or> cmp b a \<le> 0"
    and trans: "\<And>a b c. cmp a b \<le> 0 \<Longrightarrow> cmp b c \<le> 0 \<Longrightarrow> cmp a c \<le> 0"
    and sorted: "sorted_wrt (\<lambda>a b. cmp a b \<le> 0) ys"
  shows "sorted_wrt (\<lambda>a b. cmp a b \<le> 0) (insertBy cmp x ys)"
  using sorted
proof (induction ys)
  case Nil
  then show ?case by simp
next
  case (Cons y ys)
  show ?case
  proof (cases "cmp x y \<le> 0")
    case True
    with Cons.prems trans [OF True] show ?thesis
      by auto
  next
    case False
    then have "cmp y x \<le> 0"
      using total [of x y] by simp
    with False Cons show ?thesis
      by (auto simp add: set_insertBy)
  qed
qed

lemma sorted_sortBy:
  assumes total: "\<And>a b. cmp a b \<le> 0 \<or> cmp b a \<le> 0"
    and trans: "\<And>a b c. cmp a b \<le> 0 \<Longrightarrow> cmp b c \<le> 0 \<Longrightarrow> cmp a c \<le> 0"
  shows "sorted_wrt (\<lambda>a b. cmp a b \<le> 0) (sortBy cmp xs)"
proof (induction xs)
  case Nil
  then show ?case by (simp add: sortBy_def)
next
  case (Cons x xs)
  have "sorted_wrt (\<lambda>a b. cmp a b \<le> 0) (insertBy cmp x (sortBy cmp xs))"
    using total trans Cons.IH by (rule sorted_insertBy)
  then show ?case by (simp add: sortBy_def)
qed

text \<open>
  C5, as the code has it. The entries are sorted by key with \<open>localeCompare\<close>: the
  sorted sequence is a permutation of the entries and, when \<open>localeCompare\<close> is a total
  preorder, ascends. The listing is the lines of the entries of at most three parts, in
  that order, followed by one line for each group, the groups in the order of their
  first members in the sorted sequence.
\<close>

theorem listing_shallow_sorted_then_groups:
  assumes total: "\<forall>a b. localeCompare env a b \<le> 0 \<or> localeCompare env b a \<le> 0"
    and trans: "\<forall>a b c. localeCompare env a b \<le> 0 \<and> localeCompare env b c \<le> 0
        \<longrightarrow> localeCompare env a c \<le> 0"
  shows "mset (sortEntries env es) = mset es
    \<and> sorted_wrt (\<lambda>a b. localeCompare env (fst a) (fst b) \<le> 0) (sortEntries env es)
    \<and> sorted_wrt (\<lambda>a b. localeCompare env (fst a) (fst b) \<le> 0)
        (filter (\<lambda>e. length (splitOn (sep env) (relative env p (fst e))) \<le> 3)
           (sortEntries env es))
    \<and> listing (groupFiles env p (sortEntries env es)) =
        map (\<lambda>e. fileLine (contentSize env (snd e)) (relative env p (fst e)))
          (filter (\<lambda>e. length (splitOn (sep env) (relative env p (fst e))) \<le> 3)
             (sortEntries env es))
        @ map (\<lambda>d. groupLine (fst d) (snd d))
            (directoryGroups (groupFiles env p (sortEntries env es)))
    \<and> map fst (directoryGroups (groupFiles env p (sortEntries env es))) =
        rev (remdups (rev (map (groupKeyOf env p)
          (filter (\<lambda>e. 3 < length (splitOn (sep env) (relative env p (fst e))))
             (sortEntries env es)))))"
proof -
  let ?cmp = "\<lambda>a b. localeCompare env (fst a) (fst b)"
  have t: "?cmp a b \<le> 0 \<or> ?cmp b a \<le> 0" for a b :: "jsstring \<times> content"
    using total by simp
  have u: "?cmp a c \<le> 0" if "?cmp a b \<le> 0" "?cmp b c \<le> 0" for a b c :: "jsstring \<times> content"
    using trans that by blast
  have s: "sorted_wrt (\<lambda>a b. ?cmp a b \<le> 0) (sortEntries env es)"
    unfolding sortEntries_def using t u by (rule sorted_sortBy)
  have not_deep: "(\<lambda>e. \<not> 3 < length (partsOf env p e))
      = (\<lambda>e. length (splitOn (sep env) (relative env p (fst e))) \<le> 3)"
    by (auto simp add: partsOf_def relPathOf_def fun_eq_iff)
  have deep: "(\<lambda>e. 3 < length (partsOf env p e))
      = (\<lambda>e. 3 < length (splitOn (sep env) (relative env p (fst e))))"
    by (simp add: partsOf_def relPathOf_def fun_eq_iff)
  have a: "mset (sortEntries env es) = mset es"
    by (simp add: sortEntries_def mset_sortBy)
  have b: "sorted_wrt (\<lambda>a b. ?cmp a b \<le> 0)
        (filter (\<lambda>e. length (splitOn (sep env) (relative env p (fst e))) \<le> 3)
           (sortEntries env es))"
    using s by (rule sorted_wrt_filter)
  have c: "listing (groupFiles env p (sortEntries env es)) =
        map (\<lambda>e. fileLine (contentSize env (snd e)) (relative env p (fst e)))
          (filter (\<lambda>e. length (splitOn (sep env) (relative env p (fst e))) \<le> 3)
             (sortEntries env es))
        @ map (\<lambda>d. groupLine (fst d) (snd d))
            (directoryGroups (groupFiles env p (sortEntries env es)))"
    by (simp add: listing_def shallowFiles_groupFiles not_deep relPathOf_def comp_def)
  have d: "map fst (directoryGroups (groupFiles env p (sortEntries env es))) =
        rev (remdups (rev (map (groupKeyOf env p)
          (filter (\<lambda>e. 3 < length (splitOn (sep env) (relative env p (fst e))))
             (sortEntries env es)))))"
    by (simp add: keys_directoryGroups deep)
  show ?thesis
    by (intro conjI a s b c d)
qed

lemma compareCodeUnits_total: "compareCodeUnits a b \<le> 0 \<or> compareCodeUnits b a \<le> 0"
  by (induction a b rule: compareCodeUnits.induct) simp_all

lemma compareCodeUnits_trans:
  "compareCodeUnits a b \<le> 0 \<Longrightarrow> compareCodeUnits b c \<le> 0 \<Longrightarrow> compareCodeUnits a c \<le> 0"
proof (induction a b arbitrary: c rule: compareCodeUnits.induct)
  case 1
  then show ?case by simp
next
  case (2 b bs)
  then show ?case by (cases c) simp_all
next
  case (3 a as)
  then show ?case by simp
next
  case (4 a as b bs)
  show ?case
  proof (cases c)
    case Nil
    with "4.prems" show ?thesis by simp
  next
    case (Cons d ds)
    have ab: "a \<le> b"
      using "4.prems"(1) by (simp split: if_splits)
    have bd: "b \<le> d"
      using "4.prems"(2) Cons by (simp split: if_splits)
    show ?thesis
    proof (cases "a < d")
      case True
      with Cons show ?thesis by simp
    next
      case False
      with ab bd have e: "a = b" "b = d"
        by simp_all
      with "4.prems" Cons have "compareCodeUnits as bs \<le> 0" "compareCodeUnits bs ds \<le> 0"
        by simp_all
      with "4.IH" [of ds] e have "compareCodeUnits as ds \<le> 0"
        by simp
      with e Cons show ?thesis by simp
    qed
  qed
qed

section \<open>The report in the sample environment\<close>

lemma sample_report_functions:
  "relative (sampleEnv fs c) p k = k"
  "sep (sampleEnv fs c) = 47"
  "localeCompare (sampleEnv fs c) = compareCodeUnits"
  "contentSize (sampleEnv fs c) (Binary b) = length b"
  "relPathOf (sampleEnv fs c) p e = fst e"
  "partsOf (sampleEnv fs c) p e = splitOn 47 (fst e)"
  "groupKeyOf (sampleEnv fs c) p e = joinWith (str ''/'') (take 3 (splitOn 47 (fst e)))"
  by (simp_all add: sampleEnv_def contentSize_def relPathOf_def partsOf_def groupKeyOf_def)

lemma replicate_6: "replicate 6 x = [x, x, x, x, x, x]"
  by (simp add: eval_nat_numeral)

lemma sample_lines:
  "fileLine 3 path = str ''      3B '' @ path"
  "fileLine 5 path = str ''      5B '' @ path"
  "fileLine 2 path = str ''      2B '' @ path"
  by (simp_all add: fileLine_def padStart8_def formatFileSize_def decimal.simps str_def replicate_6)

lemma sample_sort: "sortEntries (sampleEnv fs c) [fileZ, fileABCDE] = [fileABCDE, fileZ]"
  by (simp add: sortEntries_def sortBy_def sample_report_functions fileZ_def fileABCDE_def str_def)

lemma sample_grouping:
  "groupFiles (sampleEnv fs c) p [fileABCDE, fileZ]
   = \<lparr>directoryGroups = [(str ''a/b/c'', \<lparr>files = [str ''a/b/c/d/e.txt''], totalSize = 5\<rparr>)],
      shallowFiles = [(str ''z.txt'', 3)],
      totalUnpackedSize = 8\<rparr>"
  by (simp add: groupFiles_def groupStep_def Let_def sample_report_functions
      fileZ_def fileABCDE_def str_def)

text \<open>
  C5 fails as stated: of two files the deeper one sorts first, yet the listing shows
  the shallow one first.
\<close>

theorem listing_not_sorted_by_path:
  "listing (groupFiles (sampleEnv [] 0) (str ''/work/ext'')
      (sortEntries (sampleEnv [] 0) [fileZ, fileABCDE]))
     = [str ''      3B z.txt'', str ''      5B a/b/c/d/e.txt'']
   \<and> localeCompare (sampleEnv [] 0) (fst fileABCDE) (fst fileZ) < 0"
proof -
  have "listing (groupFiles (sampleEnv [] 0) (str ''/work/ext'')
      (sortEntries (sampleEnv [] 0) [fileZ, fileABCDE]))
     = [str ''      3B '' @ str ''z.txt'', str ''      5B '' @ str ''a/b/c/d/e.txt'']"
    by (simp add: sample_sort sample_grouping listing_def groupLine_def sample_lines)
  moreover have "localeCompare (sampleEnv [] 0) (fst fileABCDE) (fst fileZ) < 0"
    by (simp add: sample_report_functions fileZ_def fileABCDE_def str_def)
  ultimately show ?thesis
    by (simp add: str_def)
qed

theorem listing_shallow_sorted_then_groups_witness:
  "sorted_wrt (\<lambda>a b. compareCodeUnits (fst a) (fst b) \<le> 0)
     (sortEntries (sampleEnv [] 0) [fileZ, fileABCDE])
   \<and> sortEntries (sampleEnv [] 0) [fileZ, fileABCDE] = [fileABCDE, fileZ]
   \<and> listing (groupFiles (sampleEnv [] 0) (str ''/work/ext'')
        (sortEntries (sampleEnv [] 0) [fileZ, fileABCDE]))
      = [fileLine 3 (str ''z.txt''), fileLine 5 (str ''a/b/c/d/e.txt'')]"
proof -
  let ?E = "sampleEnv [] 0"
  have t: "\<forall>a b. localeCompare ?E a b \<le> 0 \<or> localeCompare ?E b a \<le> 0"
    by (simp add: sample_report_functions compareCodeUnits_total)
  have u: "\<forall>a b c. localeCompare ?E a b \<le> 0 \<and> localeCompare ?E b c \<le> 0
      \<longrightarrow> localeCompare ?E a c \<le> 0"
    using compareCodeUnits_trans by (auto simp add: sample_report_functions)
  note w = listing_shallow_sorted_then_groups [of ?E "[fileZ, fileABCDE]" "str ''/work/ext''", OF t u]
  from w have "sorted_wrt (\<lambda>a b. compareCodeUnits (fst a) (fst b) \<le> 0)
     (sortEntries ?E [fileZ, fileABCDE])"
    by (simp add: sample_report_functions)
  moreover from w have "listing (groupFiles ?E (str ''/work/ext'') (sortEntries ?E [fileZ, fileABCDE]))
      = map (\<lambda>e. fileLine (contentSize ?E (snd e)) (relative ?E (str ''/work/ext'') (fst e)))
          (filter (\<lambda>e. length (splitOn (sep ?E) (relative ?E (str ''/work/ext'') (fst e))) \<le> 3)
             (sortEntries ?E [fileZ, fileABCDE]))
        @ map (\<lambda>d. groupLine (fst d) (snd d))
            (directoryGroups (groupFiles ?E (str ''/work/ext'') (sortEntries ?E [fileZ, fileABCDE])))"
    by blast
  then have "listing (groupFiles ?E (str ''/work/ext'') (sortEntries ?E [fileZ, fileABCDE]))
      = [fileLine 3 (str ''z.txt''), fileLine 5 (str ''a/b/c/d/e.txt'')]"
    unfolding sample_sort sample_grouping
    by (simp add: sample_report_functions fileZ_def fileABCDE_def str_def groupLine_def
        numeral_3_eq_3 [symmetric])
  ultimately show ?thesis
    by (simp add: sample_sort)
qed






section \<open>The trace of a run\<close>

lemma fst_emit [simp]: "fst (emit evs r) = fst r"
  by (simp add: emit_def)

lemma snd_emit [simp]: "snd (emit evs r) = evs @ snd r"
  by (simp add: emit_def)

lemma emit_emit: "emit a (emit b r) = emit (a @ b) r"
  by (simp add: emit_def)

lemma writes_Nil [simp]: "writes [] = []"
  by (simp add: writes_def map_filter_simps)

lemma writes_Cons [simp]:
  "writes (e # evs) = (case writeOf e of None \<Rightarrow> writes evs | Some w \<Rightarrow> w # writes evs)"
  by (cases "writeOf e") (simp_all add: writes_def map_filter_simps)

lemma writes_append [simp]: "writes (a @ b) = writes a @ writes b"
  by (induction a) (simp_all split: option.splits)

lemma writes_Log [simp]: "writes (map Log ls) = []"
  by (induction ls) simp_all

lemma zipCalls_Nil [simp]: "zipCalls [] = []"
  by (simp add: zipCalls_def map_filter_simps)

lemma zipCalls_Cons [simp]:
  "zipCalls (e # evs) = (case zipOf e of None \<Rightarrow> zipCalls evs | Some w \<Rightarrow> w # zipCalls evs)"
  by (cases "zipOf e") (simp_all add: zipCalls_def map_filter_simps)

lemma zipCalls_append [simp]: "zipCalls (a @ b) = zipCalls a @ zipCalls b"
  by (induction a) (simp_all split: option.splits)

lemma zipCalls_Log [simp]: "zipCalls (map Log ls) = []"
  by (induction ls) simp_all

lemma archiveEvent_Log [simp]: "filter archiveEvent (map Log ls) = []"
  by (induction ls) simp_all

lemma writes_no_archiveEvent: "filter archiveEvent evs = [] \<Longrightarrow> writes evs = []"
proof (induction evs)
  case Nil
  then show ?case by simp
next
  case (Cons e evs)
  then show ?case by (cases e) (simp_all split: if_splits)
qed

lemma zipCalls_no_archiveEvent: "filter archiveEvent evs = [] \<Longrightarrow> zipCalls evs = []"
proof (induction evs)
  case Nil
  then show ?case by simp
next
  case (Cons e evs)
  then show ?case by (cases e) (simp_all split: if_splits)
qed

lemma discoverEvents_writes [simp]: "writes (discoverEvents env p) = []"
  by (simp add: discoverEvents_def split: sum.splits)

lemma discoverEvents_zipCalls [simp]: "zipCalls (discoverEvents env p) = []"
  by (simp add: discoverEvents_def split: sum.splits)

text \<open>The stages before line 109 either stop, with none of the calls of lines 109-197
  made and a result that is not \<open>true\<close>, or go on to line 109 with the parsed manifest.\<close>

lemma validateStage_cases [case_names stop go]:
  obtains (stop) "fst (validateStage env opts) \<noteq> Inr True"
      "filter archiveEvent (snd (validateStage env opts)) = []"
    | (go) pre m where "validateStage env opts = emit pre (writeStage env opts m)"
      "filter archiveEvent pre = []"
proof -
  let ?mp = "join env (resolve env (extensionPath opts)) (str ''manifest.json'')"
  show thesis
  proof (cases "validateManifest env ?mp = Inr True")
    case False
    then have "fst (validateStage env opts) \<noteq> Inr True"
      "filter archiveEvent (snd (validateStage env opts)) = []"
      by (simp_all add: validateStage_def Let_def split: sum.splits bool.splits)
    then show thesis by (rule stop)
  next
    case True
    show thesis
    proof (cases "parseManifest env ?mp")
      case (Inl e)
      with True have "fst (validateStage env opts) \<noteq> Inr True"
        "filter archiveEvent (snd (validateStage env opts)) = []"
        by (simp_all add: validateStage_def Let_def split: error.splits)
      then show thesis by (rule stop)
    next
      case (Inr m)
      with True have "validateStage env opts =
          emit [Log (str ''Validating manifest...''), ValidateManifest ?mp, ParseManifest ?mp]
            (writeStage env opts m)"
        by (simp add: validateStage_def Let_def emit_def)
      then show thesis by (rule go) simp
    qed
  qed
qed

lemma manifestStage_cases [case_names stop go]:
  obtains (stop) "fst (manifestStage env opts) \<noteq> Inr True"
      "filter archiveEvent (snd (manifestStage env opts)) = []"
    | (go) pre m where "manifestStage env opts = emit pre (writeStage env opts m)"
      "filter archiveEvent pre = []"
proof -
  let ?mp = "join env (resolve env (extensionPath opts)) (str ''manifest.json'')"
  let ?ask = "[Log (str ''No manifest.json found in '' @ extensionPath opts), Confirm]"
  consider (direct) "manifestStage env opts = validateStage env opts"
    | (created) "manifestStage env opts =
        emit (?ask @ [InitExtension (extensionPath opts)]) (validateStage env opts)"
    | (refused) "fst (manifestStage env opts) \<noteq> Inr True"
        "filter archiveEvent (snd (manifestStage env opts)) = []"
    by (cases "existsSync env ?mp"; cases "confirm env = Inr True";
        cases "initExtension env (extensionPath opts) = Inr True")
      (simp_all add: manifestStage_def Let_def emit_def split: sum.splits bool.splits)
  then show thesis
  proof cases
    case direct
    show thesis
    proof (cases env opts rule: validateStage_cases)
      case stop
      with direct show thesis by (intro that(1)) simp_all
    next
      case (go pre m)
      with direct show thesis by (intro that(2) [of pre m]) simp_all
    qed
  next
    case created
    show thesis
    proof (cases env opts rule: validateStage_cases)
      case stop
      with created show thesis by (intro that(1)) simp_all
    next
      case (go pre m)
      with created show thesis
        by (intro that(2) [of "?ask @ [InitExtension (extensionPath opts)] @ pre" m])
          (simp_all add: emit_emit)
    qed
  next
    case refused
    then show thesis by (rule that(1))
  qed
qed

lemma packExtension_cases [case_names stop go]:
  obtains (stop) "fst (packExtension env opts) \<noteq> Inr True"
      "filter archiveEvent (snd (packExtension env opts)) = []"
    | (go) pre m where "packExtension env opts = emit pre (writeStage env opts m)"
      "filter archiveEvent pre = []"
proof -
  consider (inside) "packExtension env opts = manifestStage env opts"
    | (outside) "fst (packExtension env opts) \<noteq> Inr True"
        "filter archiveEvent (snd (packExtension env opts)) = []"
    by (cases "existsSync env (resolve env (extensionPath opts))";
        cases "isDirectory env (resolve env (extensionPath opts)) = Inr True")
      (simp_all add: packExtension_def Let_def split: sum.splits bool.splits)
  then show thesis
  proof cases
    case inside
    show thesis
    proof (cases env opts rule: manifestStage_cases)
      case stop
      with inside show thesis by (intro that(1)) simp_all
    next
      case (go pre m)
      with inside show thesis by (intro that(2) [of pre m]) simp_all
    qed
  next
    case outside
    then show thesis by (rule that(1))
  qed
qed


text \<open>Lines 109-221, by the outcome of each call.\<close>

lemma writeStage_shapes [case_names mkdir_fails discover_fails zip_fails write_fails written]:
  fixes env opts m
  defines "p \<equiv> resolve env (extensionPath opts)"
    and "out \<equiv> finalOutputPathOf env opts"
    and "dir \<equiv> outputDirOf env opts"
  obtains
    (mkdir_fails) e where "mkdirSync env dir = Inl e"
      "writeStage env opts m = (Inl e, [MkdirRecursive dir])"
  | (discover_fails) e where "mkdirSync env dir = Inr ()" "discover env p = Inl e"
      "writeStage env opts m =
         (Inr False, MkdirRecursive dir # discoverEvents env p @ [LogError (archiveErrorLine e)])"
  | (zip_fails) found e where "mkdirSync env dir = Inr ()" "discover env p = Inr found"
      "zipSync env (fst found) 9 (now env) = Inl e"
      "writeStage env opts m =
         (Inr False, MkdirRecursive dir # discoverEvents env p
            @ map Log (contentsLines env p m (fst found))
            @ [ZipSync (fst found) 9 (now env), LogError (archiveErrorLine e)])"
  | (write_fails) found z e where "mkdirSync env dir = Inr ()" "discover env p = Inr found"
      "zipSync env (fst found) 9 (now env) = Inr z" "writeFileSync env out z = Inl e"
      "writeStage env opts m =
         (Inr False, MkdirRecursive dir # discoverEvents env p
            @ map Log (contentsLines env p m (fst found))
            @ [ZipSync (fst found) 9 (now env), WriteFile out z, LogError (archiveErrorLine e)])"
  | (written) found z where "mkdirSync env dir = Inr ()" "discover env p = Inr found"
      "zipSync env (fst found) 9 (now env) = Inr z" "writeFileSync env out z = Inr ()"
      "writeStage env opts m =
         (Inr True, MkdirRecursive dir # discoverEvents env p
            @ map Log (contentsLines env p m (fst found))
            @ [ZipSync (fst found) 9 (now env), WriteFile out z]
            @ map Log (archiveDetails env m out z
                (totalUnpackedSize (groupFiles env p (sortEntries env (fst found))))
                (length (sortEntries env (fst found))) (snd found)))"
proof (cases "mkdirSync env dir")
  case (Inl e)
  then have "writeStage env opts m = (Inl e, [MkdirRecursive dir])"
    by (simp add: writeStage_def emit_def dir_def)
  with Inl show thesis by (rule mkdir_fails)
next
  case mk: (Inr u)
  then have mk': "mkdirSync env dir = Inr ()"
    by simp
  have ws: "writeStage env opts m =
      emit [MkdirRecursive dir] (catchArchiveError (tryBody env p m out))"
    using mk by (simp add: writeStage_def dir_def p_def out_def)
  show thesis
  proof (cases "discover env p")
    case (Inl e)
    then have "writeStage env opts m =
         (Inr False, MkdirRecursive dir # discoverEvents env p @ [LogError (archiveErrorLine e)])"
      by (simp add: ws emit_def catchArchiveError_def tryBody_def)
    with mk' Inl show thesis by (rule discover_fails)
  next
    case found: (Inr found)
    show thesis
    proof (cases "zipSync env (fst found) 9 (now env)")
      case (Inl e)
      with found have "writeStage env opts m =
         (Inr False, MkdirRecursive dir # discoverEvents env p
            @ map Log (contentsLines env p m (fst found))
            @ [ZipSync (fst found) 9 (now env), LogError (archiveErrorLine e)])"
        by (simp add: ws emit_def catchArchiveError_def tryBody_def report_def
            buildAndWrite_def Let_def)
      with mk' found Inl show thesis by (rule zip_fails)
    next
      case z: (Inr z)
      show thesis
      proof (cases "writeFileSync env out z")
        case (Inl e)
        with found z have "writeStage env opts m =
           (Inr False, MkdirRecursive dir # discoverEvents env p
            @ map Log (contentsLines env p m (fst found))
            @ [ZipSync (fst found) 9 (now env), WriteFile out z, LogError (archiveErrorLine e)])"
          by (simp add: ws emit_def catchArchiveError_def tryBody_def report_def
              buildAndWrite_def Let_def)
        with mk' found z Inl show thesis by (rule write_fails)
      next
        case w: (Inr u)
        then have w': "writeFileSync env out z = Inr ()"
          by simp
        from found z w have "writeStage env opts m =
         (Inr True, MkdirRecursive dir # discoverEvents env p
            @ map Log (contentsLines env p m (fst found))
            @ [ZipSync (fst found) 9 (now env), WriteFile out z]
            @ map Log (archiveDetails env m out z
                (totalUnpackedSize (groupFiles env p (sortEntries env (fst found))))
                (length (sortEntries env (fst found))) (snd found)))"
          by (simp add: ws emit_def catchArchiveError_def tryBody_def report_def
              buildAndWrite_def Let_def)
        with mk' found z w' show thesis by (rule written)
      qed
    qed
  qed
qed

lemma packExtension_shapes
  [case_names stop mkdir_fails discover_fails zip_fails write_fails written]:
  fixes env :: env and opts :: PackOptions
  defines "p \<equiv> resolve env (extensionPath opts)"
    and "out \<equiv> finalOutputPathOf env opts"
    and "dir \<equiv> outputDirOf env opts"
  obtains
    (stop) "fst (packExtension env opts) \<noteq> Inr True"
      "filter archiveEvent (snd (packExtension env opts)) = []"
  | (mkdir_fails) pre e where "filter archiveEvent pre = []" "mkdirSync env dir = Inl e"
      "packExtension env opts = (Inl e, pre @ [MkdirRecursive dir])"
  | (discover_fails) pre e where "filter archiveEvent pre = []" "mkdirSync env dir = Inr ()"
      "discover env p = Inl e"
      "packExtension env opts =
         (Inr False,
          pre @ MkdirRecursive dir # discoverEvents env p @ [LogError (archiveErrorLine e)])"
  | (zip_fails) pre m found e where "filter archiveEvent pre = []" "mkdirSync env dir = Inr ()"
      "discover env p = Inr found" "zipSync env (fst found) 9 (now env) = Inl e"
      "packExtension env opts =
         (Inr False, pre @ MkdirRecursive dir # discoverEvents env p
            @ map Log (contentsLines env p m (fst found))
            @ [ZipSync (fst found) 9 (now env), LogError (archiveErrorLine e)])"
  | (write_fails) pre m found z e where "filter archiveEvent pre = []"
      "mkdirSync env dir = Inr ()" "discover env p = Inr found"
      "zipSync env (fst found) 9 (now env) = Inr z" "writeFileSync env out z = Inl e"
      "packExtension env opts =
         (Inr False, pre @ MkdirRecursive dir # discoverEvents env p
            @ map Log (contentsLines env p m (fst found))
            @ [ZipSync (fst found) 9 (now env), WriteFile out z, LogError (archiveErrorLine e)])"
  | (written) pre m found z where "filter archiveEvent pre = []"
      "mkdirSync env dir = Inr ()" "discover env p = Inr found"
      "zipSync env (fst found) 9 (now env) = Inr z" "writeFileSync env out z = Inr ()"
      "packExtension env opts =
         (Inr True, pre @ MkdirRecursive dir # discoverEvents env p
            @ map Log (contentsLines env p m (fst found))
            @ [ZipSync (fst found) 9 (now env), WriteFile out z]
            @ map Log (archiveDetails env m out z
                (totalUnpackedSize (groupFiles env p (sortEntries env (fst found))))
                (length (sortEntries env (fst found))) (snd found)))"
proof (cases env opts rule: packExtension_cases)
  case stop
  then show thesis by (rule that(1))
next
  case (go pre m)
  show thesis
  proof (cases rule: writeStage_shapes [where env = env and opts = opts and m = m])
    case (mkdir_fails e)
    with go show thesis
      by (intro that(2) [of pre e]) (simp_all add: emit_def p_def out_def dir_def)
  next
    case (discover_fails e)
    with go show thesis
      by (intro that(3) [of pre e]) (simp_all add: emit_def p_def out_def dir_def)
  next
    case (zip_fails found e)
    with go show thesis
      by (intro that(4) [of pre found e m]) (simp_all add: emit_def p_def out_def dir_def)
  next
    case (write_fails found z e)
    with go show thesis
      by (intro that(5) [of pre found z e m]) (simp_all add: emit_def p_def out_def dir_def)
  next
    case (written found z)
    with go show thesis
      by (intro that(6) [of pre found z m]) (simp_all add: emit_def p_def out_def dir_def)
  qed
qed

lemma ReadDxt_notin_pre:
  "filter archiveEvent pre = [] \<Longrightarrow> ReadDxtIgnorePatterns q \<notin> set pre"
  by (induction pre) (auto split: if_splits)

lemma ReadDxt_in_discoverEvents:
  "ReadDxtIgnorePatterns q \<in> set (discoverEvents env p) \<longleftrightarrow> q = p"
  by (auto simp add: discoverEvents_def split: sum.splits)

lemma discoverEvents_head:
  "\<exists>rest. discoverEvents env p = ReadDxtIgnorePatterns p # rest"
  by (simp add: discoverEvents_def)

text \<open>What a run that began discovery looks like.\<close>

lemma discovery_begun:
  assumes run: "packExtension env opts = (r, evs)"
    and begun: "ReadDxtIgnorePatterns q \<in> set evs"
  shows "q = resolve env (extensionPath opts) \<and> mkdirSync env (outputDirOf env opts) = Inr ()
    \<and> (\<exists>pre post. evs = pre @ MkdirRecursive (outputDirOf env opts)
            # ReadDxtIgnorePatterns (resolve env (extensionPath opts)) # post
          \<and> filter archiveEvent pre = [])"
proof -
  let ?p = "resolve env (extensionPath opts)"
  obtain rest where rest: "discoverEvents env ?p = ReadDxtIgnorePatterns ?p # rest"
    using discoverEvents_head by blast
  have shape: "\<And>pre tail. filter archiveEvent pre = [] \<Longrightarrow>
      evs = pre @ MkdirRecursive (outputDirOf env opts) # discoverEvents env ?p @ tail \<Longrightarrow>
      \<exists>pre post. evs = pre @ MkdirRecursive (outputDirOf env opts)
            # ReadDxtIgnorePatterns ?p # post \<and> filter archiveEvent pre = []"
    using rest by auto
  show ?thesis
  proof (cases rule: packExtension_shapes [where env = env and opts = opts])
    case stop
    with run begun show ?thesis
      by (auto simp add: ReadDxt_notin_pre)
  next
    case (mkdir_fails pre e)
    with run begun show ?thesis
      by (auto simp add: ReadDxt_notin_pre)
  next
    case (discover_fails pre e)
    with run begun shape [of pre] show ?thesis
      by (auto simp add: ReadDxt_notin_pre ReadDxt_in_discoverEvents)
  next
    case (zip_fails pre m found e)
    with run begun shape [of pre] show ?thesis
      by (auto simp add: ReadDxt_notin_pre ReadDxt_in_discoverEvents)
  next
    case (write_fails pre m found z e)
    with run begun shape [of pre] show ?thesis
      by (auto simp add: ReadDxt_notin_pre ReadDxt_in_discoverEvents)
  next
    case (written pre m found z)
    with run begun shape [of pre] show ?thesis
      by (auto simp add: ReadDxt_notin_pre ReadDxt_in_discoverEvents)
  qed
qed

section \<open>packExtension\<close>

lemma packExtension_reaches_writeStage:
  assumes "existsSync env (resolve env (extensionPath opts))"
    and "isDirectory env (resolve env (extensionPath opts)) = Inr True"
    and "existsSync env (join env (resolve env (extensionPath opts)) (str ''manifest.json''))"
    and "validateManifest env (join env (resolve env (extensionPath opts)) (str ''manifest.json''))
           = Inr True"
    and "parseManifest env (join env (resolve env (extensionPath opts)) (str ''manifest.json''))
           = Inr m"
  shows "packExtension env opts =
           emit [Log (str ''Validating manifest...''),
                 ValidateManifest (join env (resolve env (extensionPath opts)) (str ''manifest.json'')),
                 ParseManifest (join env (resolve env (extensionPath opts)) (str ''manifest.json''))]
             (writeStage env opts m)"
  using assms
  by (simp add: packExtension_def manifestStage_def validateStage_def Let_def emit_def)

lemma writeStage_begins_discovery:
  assumes "mkdirSync env (outputDirOf env opts) = Inr u"
  shows "ReadDxtIgnorePatterns (resolve env (extensionPath opts)) \<in> set (snd (writeStage env opts m))"
  using assms
  by (cases rule: writeStage_shapes [where env = env and opts = opts and m = m])
    (auto simp add: ReadDxt_in_discoverEvents)

text \<open>
  C6. In a run that began discovery, if discovery throws, or the compressor does, the
  result is \<open>false\<close> and nothing is written. In every run nothing is written, or there
  is exactly one write: of the complete result of the compressor, at the final output
  path, in the call right after the compressor returned.
\<close>

theorem failed_build_writes_nothing:
  assumes run: "packExtension env opts = (r, evs)"
  shows "(ReadDxtIgnorePatterns (resolve env (extensionPath opts)) \<in> set evs \<and>
            ((\<exists>e. discover env (resolve env (extensionPath opts)) = Inl e) \<or>
             (\<exists>found e. discover env (resolve env (extensionPath opts)) = Inr found \<and>
                zipSync env (fst found) 9 (now env) = Inl e))
          \<longrightarrow> r = Inr False \<and> writes evs = [])
       \<and> (writes evs = [] \<or>
            (\<exists>found z pre post.
                discover env (resolve env (extensionPath opts)) = Inr found \<and>
                zipSync env (fst found) 9 (now env) = Inr z \<and>
                evs = pre @ ZipSync (fst found) 9 (now env)
                        # WriteFile (finalOutputPathOf env opts) z # post \<and>
                writes evs = [(finalOutputPathOf env opts, z)]))"
proof (cases rule: packExtension_shapes [where env = env and opts = opts])
  case stop
  with run show ?thesis
    by (auto simp add: ReadDxt_notin_pre writes_no_archiveEvent)
next
  case (mkdir_fails pre e)
  with run show ?thesis
    by (auto simp add: ReadDxt_notin_pre writes_no_archiveEvent)
next
  case (discover_fails pre e)
  with run show ?thesis
    by (auto simp add: writes_no_archiveEvent)
next
  case (zip_fails pre m found e)
  with run show ?thesis
    by (auto simp add: writes_no_archiveEvent)
next
  case (write_fails pre m found z e)
  let ?pre = "pre @ MkdirRecursive (outputDirOf env opts)
      # discoverEvents env (resolve env (extensionPath opts))
      @ map Log (contentsLines env (resolve env (extensionPath opts)) m (fst found))"
  from write_fails run have "evs = ?pre @ ZipSync (fst found) 9 (now env)
      # WriteFile (finalOutputPathOf env opts) z # [LogError (archiveErrorLine e)]"
    and "writes evs = [(finalOutputPathOf env opts, z)]"
    by (auto simp add: writes_no_archiveEvent)
  then have "\<exists>found z pre post.
      discover env (resolve env (extensionPath opts)) = Inr found \<and>
      zipSync env (fst found) 9 (now env) = Inr z \<and>
      evs = pre @ ZipSync (fst found) 9 (now env)
              # WriteFile (finalOutputPathOf env opts) z # post \<and>
      writes evs = [(finalOutputPathOf env opts, z)]"
    using write_fails(3,4) by blast
  moreover have "\<not> ((\<exists>e. discover env (resolve env (extensionPath opts)) = Inl e) \<or>
      (\<exists>found e. discover env (resolve env (extensionPath opts)) = Inr found \<and>
         zipSync env (fst found) 9 (now env) = Inl e))"
    using write_fails(3,4) by auto
  ultimately show ?thesis
    by blast
next
  case (written pre m found z)
  let ?pre = "pre @ MkdirRecursive (outputDirOf env opts)
      # discoverEvents env (resolve env (extensionPath opts))
      @ map Log (contentsLines env (resolve env (extensionPath opts)) m (fst found))"
  let ?post = "map Log (archiveDetails env m (finalOutputPathOf env opts) z
      (totalUnpackedSize (groupFiles env (resolve env (extensionPath opts))
         (sortEntries env (fst found))))
      (length (sortEntries env (fst found))) (snd found))"
  from written run have "evs = ?pre @ ZipSync (fst found) 9 (now env)
      # WriteFile (finalOutputPathOf env opts) z # ?post"
    and "writes evs = [(finalOutputPathOf env opts, z)]"
    by (auto simp add: writes_no_archiveEvent)
  then have "\<exists>found z pre post.
      discover env (resolve env (extensionPath opts)) = Inr found \<and>
      zipSync env (fst found) 9 (now env) = Inr z \<and>
      evs = pre @ ZipSync (fst found) 9 (now env)
              # WriteFile (finalOutputPathOf env opts) z # post \<and>
      writes evs = [(finalOutputPathOf env opts, z)]"
    using written(3,4) by blast
  moreover have "\<not> ((\<exists>e. discover env (resolve env (extensionPath opts)) = Inl e) \<or>
      (\<exists>found e. discover env (resolve env (extensionPath opts)) = Inr found \<and>
         zipSync env (fst found) 9 (now env) = Inl e))"
    using written(3,4) by auto
  ultimately show ?thesis
    by blast
qed

text \<open>
  C10. In a run that began discovery, the call that creates the output directory
  (recursively) was made, and succeeded, right before discovery began, and no call of
  lines 109-197 precedes it. The call stays in the trace of a run in which discovery or
  the compressor throws, and that run returns \<open>false\<close>.
\<close>

theorem output_directory_created_before_discovery:
  assumes run: "packExtension env opts = (r, evs)"
    and begun: "ReadDxtIgnorePatterns q \<in> set evs"
  shows "(\<exists>pre post.
            evs = pre @ MkdirRecursive (join env (finalOutputPathOf env opts) (str ''..''))
                   # ReadDxtIgnorePatterns q # post \<and>
            filter archiveEvent pre = [])
       \<and> mkdirSync env (join env (finalOutputPathOf env opts) (str ''..'')) = Inr ()
       \<and> (((\<exists>e. discover env (resolve env (extensionPath opts)) = Inl e) \<or>
             (\<exists>found e. discover env (resolve env (extensionPath opts)) = Inr found \<and>
                zipSync env (fst found) 9 (now env) = Inl e))
            \<longrightarrow> r = Inr False \<and>
                MkdirRecursive (join env (finalOutputPathOf env opts) (str ''..'')) \<in> set evs)"
proof -
  note b = discovery_begun [OF run begun]
  have q: "q = resolve env (extensionPath opts)"
    using b by blast
  have failed: "r = Inr False"
    if "(\<exists>e. discover env (resolve env (extensionPath opts)) = Inl e) \<or>
        (\<exists>found e. discover env (resolve env (extensionPath opts)) = Inr found \<and>
           zipSync env (fst found) 9 (now env) = Inl e)"
    using that run begun
    by (cases rule: packExtension_shapes [where env = env and opts = opts])
      (auto simp add: ReadDxt_notin_pre q)
  from b failed show ?thesis
    unfolding outputDirOf_def q by auto
qed

text \<open>
  C7. With the directory there and no \<open>manifest.json\<close> in it, the user is asked. If the
  answer is no, \<open>initExtension\<close> is not called and the result is \<open>false\<close>; if it is
  yes, \<open>initExtension\<close> is called, and if that returns \<open>false\<close> the result is
  \<open>false\<close>. Neither way is the compressor called or anything written.
\<close>

theorem missing_manifest_asks_then_fails:
  assumes run: "packExtension env opts = (r, evs)"
    and dir: "existsSync env (resolve env (extensionPath opts))"
      "isDirectory env (resolve env (extensionPath opts)) = Inr True"
    and missing:
      "\<not> existsSync env (join env (resolve env (extensionPath opts)) (str ''manifest.json''))"
  shows "Confirm \<in> set evs
       \<and> (confirm env = Inr False \<longrightarrow>
            r = Inr False \<and> InitExtension (extensionPath opts) \<notin> set evs
            \<and> zipCalls evs = [] \<and> writes evs = [])
       \<and> (confirm env = Inr True \<longrightarrow>
            InitExtension (extensionPath opts) \<in> set evs
            \<and> (initExtension env (extensionPath opts) = Inr False \<longrightarrow>
                 r = Inr False \<and> zipCalls evs = [] \<and> writes evs = []))"
proof -
  have "packExtension env opts = manifestStage env opts"
    using dir by (simp add: packExtension_def Let_def)
  with run have m: "manifestStage env opts = (r, evs)"
    by simp
  show ?thesis
  proof (cases "confirm env")
    case (Inl e)
    with m missing show ?thesis
      by (auto simp add: manifestStage_def Let_def emit_def)
  next
    case (Inr answer)
    show ?thesis
    proof (cases answer)
      case False
      with Inr m missing show ?thesis
        by (auto simp add: manifestStage_def Let_def emit_def)
    next
      case True
      with Inr m missing show ?thesis
        by (cases "initExtension env (extensionPath opts)")
          (auto simp add: manifestStage_def Let_def emit_def split: bool.splits)
    qed
  qed
qed

lemma logged_Nil [simp]: "logged [] = []"
  by (simp add: logged_def map_filter_simps)

lemma logged_Cons [simp]:
  "logged (e # evs) = (case logOf e of None \<Rightarrow> logged evs | Some l \<Rightarrow> l # logged evs)"
  by (cases "logOf e") (simp_all add: logged_def map_filter_simps)

lemma logged_append [simp]: "logged (a @ b) = logged a @ logged b"
  by (induction a) (simp_all split: option.splits)

lemma logged_Log [simp]: "logged (map Log ls) = ls"
  by (induction ls) simp_all

lemma shasum_in_archiveDetails:
  "str ''shasum: '' @ sha1hex env z \<in> set (archiveDetails env m out z unpacked n ignored)"
  by (simp add: archiveDetails_def)

text \<open>A run that wrote: what it compressed, what it wrote and what it logged.\<close>

lemma written_run:
  assumes run: "packExtension env opts = (r, evs)"
    and wrote: "writes evs \<noteq> []"
  shows "\<exists>found z.
           discover env (resolve env (extensionPath opts)) = Inr found \<and>
           zipSync env (fst found) 9 (now env) = Inr z \<and>
           writes evs = [(finalOutputPathOf env opts, z)] \<and>
           zipCalls evs = [(fst found, 9, now env)] \<and>
           (r = Inr True \<longrightarrow> str ''shasum: '' @ sha1hex env z \<in> set (logged evs))"
proof (cases rule: packExtension_shapes [where env = env and opts = opts])
  case stop
  with run wrote show ?thesis
    by (auto simp add: writes_no_archiveEvent)
next
  case (mkdir_fails pre e)
  with run wrote show ?thesis
    by (auto simp add: writes_no_archiveEvent)
next
  case (discover_fails pre e)
  with run wrote show ?thesis
    by (auto simp add: writes_no_archiveEvent)
next
  case (zip_fails pre m found e)
  with run wrote show ?thesis
    by (auto simp add: writes_no_archiveEvent)
next
  case (write_fails pre m found z e)
  with run have "writes evs = [(finalOutputPathOf env opts, z)]"
    "zipCalls evs = [(fst found, 9, now env)]" "r = Inr False"
    by (auto simp add: writes_no_archiveEvent zipCalls_no_archiveEvent)
  with write_fails(3,4) show ?thesis
    by blast
next
  case (written pre m found z)
  with run have "writes evs = [(finalOutputPathOf env opts, z)]"
    "zipCalls evs = [(fst found, 9, now env)]"
    "str ''shasum: '' @ sha1hex env z \<in> set (logged evs)"
    by (auto simp add: writes_no_archiveEvent zipCalls_no_archiveEvent shasum_in_archiveDetails)
  with written(3,4) show ?thesis
    by blast
qed


text \<open>
  C8, as the code has it. Whatever a run writes, it writes at the final output path, and
  a run that succeeds wrote there once. Without an output path, and with an empty one,
  that path is the base name of the resolved extension directory with \<open>.dxt\<close>,
  resolved; with a non-empty output path it is that path, resolved.
\<close>

theorem archive_written_at_final_output_path:
  assumes run: "packExtension env opts = (r, evs)"
  shows "(\<forall>w \<in> set (writes evs). fst w = finalOutputPathOf env opts)
       \<and> (r = Inr True \<longrightarrow> (\<exists>z. writes evs = [(finalOutputPathOf env opts, z)]))
       \<and> (outputPath opts = None \<or> outputPath opts = Some [] \<longrightarrow>
            finalOutputPathOf env opts =
              resolve env (basename env (resolve env (extensionPath opts)) @ str ''.dxt''))
       \<and> (\<forall>p. outputPath opts = Some p \<and> p \<noteq> [] \<longrightarrow>
            finalOutputPathOf env opts = resolve env p)"
proof -
  have a: "\<forall>w \<in> set (writes evs). fst w = finalOutputPathOf env opts"
  proof (cases "writes evs = []")
    case True
    then show ?thesis by simp
  next
    case False
    from written_run [OF run False] show ?thesis by auto
  qed
  have b: "\<exists>z. writes evs = [(finalOutputPathOf env opts, z)]" if "r = Inr True"
    using that run
    by (cases rule: packExtension_shapes [where env = env and opts = opts])
      (auto simp add: writes_no_archiveEvent)
  have c: "finalOutputPathOf env opts =
      resolve env (basename env (resolve env (extensionPath opts)) @ str ''.dxt'')"
    if "outputPath opts = None \<or> outputPath opts = Some []"
    using that by (auto simp add: finalOutputPathOf_def Let_def)
  have d: "finalOutputPathOf env opts = resolve env p" if "outputPath opts = Some p \<and> p \<noteq> []" for p
    using that by (simp add: finalOutputPathOf_def Let_def)
  from a b c d show ?thesis
    by blast
qed

section \<open>Runs in the sample environment\<close>

lemma sample_paths:
  "resolve (sampleEnv fs c) (str ''.'') = str ''/work/ext''"
  "resolve (sampleEnv fs c) [] = str ''/work/ext''"
  "resolve (sampleEnv fs c) (str ''ext.dxt'') = str ''/work/ext/ext.dxt''"
  "resolve (sampleEnv fs c) (str ''/tmp/out/x.dxt'') = str ''/tmp/out/x.dxt''"
  "basename (sampleEnv fs c) (str ''/work/ext'') = str ''ext''"
  "join (sampleEnv fs c) (str ''/work/ext'') (str ''manifest.json'') = str ''/work/ext/manifest.json''"
  "join (sampleEnv fs c) (str ''/work/ext/ext.dxt'') (str ''..'') = str ''/work/ext''"
  "join (sampleEnv fs c) (str ''/tmp/out/x.dxt'') (str ''..'') = str ''/tmp/out''"
  by (simp_all add: sampleEnv_def sampleResolve_def sampleBasename_def sampleJoin_def str_def)

lemma sample_answers:
  "existsSync (sampleEnv fs c) (str ''/work/ext'')"
  "existsSync (sampleEnv fs c) (str ''/work/ext/manifest.json'')"
  "isDirectory (sampleEnv fs c) (str ''/work/ext'') = Inr True"
  "validateManifest (sampleEnv fs c) p = Inr True"
  "parseManifest (sampleEnv fs c) p = Inr sampleManifest"
  "mkdirSync (sampleEnv fs c) p = Inr ()"
  "discover (sampleEnv fs c) p = Inr (fs, 0)"
  "zipSync (sampleEnv fs c) = storeArchive"
  "now (sampleEnv fs c) = c"
  "writeFileSync (sampleEnv fs c) p d = Inr ()"
  by (simp_all add: sampleEnv_def discover_def)

lemma sample_final_paths:
  "finalOutputPathOf (sampleEnv fs c) sampleOptions = str ''/work/ext/ext.dxt''"
  "finalOutputPathOf (sampleEnv fs c) (sampleOptions\<lparr>outputPath := Some []\<rparr>)
     = str ''/work/ext/ext.dxt''"
  "finalOutputPathOf (sampleEnv fs c) (sampleOptions\<lparr>outputPath := Some (str ''/tmp/out/x.dxt'')\<rparr>)
     = str ''/tmp/out/x.dxt''"
proof -
  have e: "str ''ext'' @ str ''.dxt'' = str ''ext.dxt''"
    by (simp add: str_def)
  have n: "str ''/tmp/out/x.dxt'' \<noteq> []"
    by (simp add: str_def)
  show "finalOutputPathOf (sampleEnv fs c) sampleOptions = str ''/work/ext/ext.dxt''"
    "finalOutputPathOf (sampleEnv fs c) (sampleOptions\<lparr>outputPath := Some []\<rparr>)
     = str ''/work/ext/ext.dxt''"
    "finalOutputPathOf (sampleEnv fs c) (sampleOptions\<lparr>outputPath := Some (str ''/tmp/out/x.dxt'')\<rparr>)
     = str ''/tmp/out/x.dxt''"
    by (simp_all add: finalOutputPathOf_def sampleOptions_def sample_paths e n)
qed

text \<open>A run in the sample environment on \<open>.\<close> succeeds.\<close>

lemma sample_run:
  assumes "extensionPath opts = str ''.''"
  shows "fst (packExtension (sampleEnv fs c) opts) = Inr True"
    and "\<exists>z. storeArchive fs 9 c = Inr z \<and>
           writes (snd (packExtension (sampleEnv fs c) opts))
             = [(finalOutputPathOf (sampleEnv fs c) opts, z)]"
    and "zipCalls (snd (packExtension (sampleEnv fs c) opts)) = [(fs, 9, c)]"
proof -
  let ?E = "sampleEnv fs c"
  let ?pre = "[Log (str ''Validating manifest...''),
     ValidateManifest (str ''/work/ext/manifest.json''),
     ParseManifest (str ''/work/ext/manifest.json'')]"
  have reach: "packExtension ?E opts = emit ?pre (writeStage ?E opts sampleManifest)"
    using packExtension_reaches_writeStage [of ?E opts sampleManifest]
    by (simp add: assms sample_paths sample_answers)
  have "fst (writeStage ?E opts sampleManifest) = Inr True
    \<and> (\<exists>z. storeArchive fs 9 c = Inr z \<and>
           writes (snd (writeStage ?E opts sampleManifest)) = [(finalOutputPathOf ?E opts, z)])
    \<and> zipCalls (snd (writeStage ?E opts sampleManifest)) = [(fs, 9, c)]"
    by (cases rule: writeStage_shapes [where env = ?E and opts = opts and m = sampleManifest])
      (auto simp add: assms sample_paths sample_answers storeArchive_def)
  with reach show "fst (packExtension (sampleEnv fs c) opts) = Inr True"
    and "\<exists>z. storeArchive fs 9 c = Inr z \<and>
           writes (snd (packExtension (sampleEnv fs c) opts))
             = [(finalOutputPathOf (sampleEnv fs c) opts, z)]"
    and "zipCalls (snd (packExtension (sampleEnv fs c) opts)) = [(fs, 9, c)]"
    by simp_all
qed




text \<open>
  C8 fails as stated: with the empty string as output path the archive is written at
  the default path and not at the resolved output path.
\<close>

theorem empty_output_path_takes_default:
  "fst (packExtension (sampleEnv sampleFiles 1000) (sampleOptions\<lparr>outputPath := Some []\<rparr>))
     = Inr True
   \<and> map fst (writes (snd (packExtension (sampleEnv sampleFiles 1000)
        (sampleOptions\<lparr>outputPath := Some []\<rparr>)))) = [str ''/work/ext/ext.dxt'']
   \<and> resolve (sampleEnv sampleFiles 1000) [] = str ''/work/ext''"
proof -
  let ?O = "sampleOptions\<lparr>outputPath := Some []\<rparr>"
  have o: "extensionPath ?O = str ''.''"
    by (simp add: sampleOptions_def)
  show ?thesis
    using sample_run(1,2) [OF o, of sampleFiles 1000]
    by (auto simp add: sample_final_paths sample_paths)
qed

theorem archive_written_at_final_output_path_witness:
  "map fst (writes (snd (packExtension (sampleEnv sampleFiles 1000) sampleOptions)))
     = [str ''/work/ext/ext.dxt'']
   \<and> map fst (writes (snd (packExtension (sampleEnv sampleFiles 1000)
        (sampleOptions\<lparr>outputPath := Some (str ''/tmp/out/x.dxt'')\<rparr>))))
     = [str ''/tmp/out/x.dxt'']"
proof -
  let ?E = "sampleEnv sampleFiles 1000"
  let ?O = "sampleOptions\<lparr>outputPath := Some (str ''/tmp/out/x.dxt'')\<rparr>"
  have o: "extensionPath sampleOptions = str ''.''" "extensionPath ?O = str ''.''"
    by (simp_all add: sampleOptions_def)
  have n: "outputPath sampleOptions = None" "outputPath ?O = Some (str ''/tmp/out/x.dxt'')"
     "str ''/tmp/out/x.dxt'' \<noteq> []"
    by (simp_all add: sampleOptions_def str_def)
  obtain r1 evs1 where run1: "packExtension ?E sampleOptions = (r1, evs1)"
    by (cases "packExtension ?E sampleOptions")
  obtain r2 evs2 where run2: "packExtension ?E ?O = (r2, evs2)"
    by (cases "packExtension ?E ?O")
  have s: "r1 = Inr True" "r2 = Inr True"
    using sample_run(1) [OF o(1), of sampleFiles 1000] sample_run(1) [OF o(2), of sampleFiles 1000]
      run1 run2 by simp_all
  have "\<exists>z. writes evs1
      = [(resolve ?E (basename ?E (resolve ?E (extensionPath sampleOptions)) @ str ''.dxt''), z)]"
    using archive_written_at_final_output_path [OF run1] s(1) n(1) by auto
  moreover have "\<exists>z. writes evs2 = [(resolve ?E (str ''/tmp/out/x.dxt''), z)]"
    using archive_written_at_final_output_path [OF run2] s(2) n(2,3) by auto
  moreover have "str ''ext'' @ str ''.dxt'' = str ''ext.dxt''"
    by (simp add: str_def)
  ultimately show ?thesis
    using run1 run2 by (auto simp add: o sample_paths)
qed

lemma broken_discovery_begins:
  shows "ReadDxtIgnorePatterns (str ''/work/ext'')
     \<in> set (snd (packExtension brokenDiscoveryEnv sampleOptions))"
    "discover brokenDiscoveryEnv (str ''/work/ext'') = Inl (Error (str ''EACCES''))"
    "resolve brokenDiscoveryEnv (extensionPath sampleOptions) = str ''/work/ext''"
    "join brokenDiscoveryEnv (finalOutputPathOf brokenDiscoveryEnv sampleOptions) (str ''..'')
         = str ''/work/ext''"
proof -
  let ?E = "brokenDiscoveryEnv"
  have o: "extensionPath sampleOptions = str ''.''"
    by (simp add: sampleOptions_def)
  have p: "resolve ?E (str ''.'') = str ''/work/ext''"
    "join ?E (str ''/work/ext'') (str ''manifest.json'') = str ''/work/ext/manifest.json''"
    by (simp_all add: brokenDiscoveryEnv_def sample_paths)
  have a: "existsSync ?E (str ''/work/ext'')" "existsSync ?E (str ''/work/ext/manifest.json'')"
    "isDirectory ?E (str ''/work/ext'') = Inr True"
    "validateManifest ?E (str ''/work/ext/manifest.json'') = Inr True"
    "parseManifest ?E (str ''/work/ext/manifest.json'') = Inr sampleManifest"
    "mkdirSync ?E (outputDirOf ?E sampleOptions) = Inr ()"
    by (simp_all add: brokenDiscoveryEnv_def sample_answers)
  have "packExtension ?E sampleOptions =
      emit [Log (str ''Validating manifest...''),
            ValidateManifest (str ''/work/ext/manifest.json''),
            ParseManifest (str ''/work/ext/manifest.json'')]
        (writeStage ?E sampleOptions sampleManifest)"
    using packExtension_reaches_writeStage [of ?E sampleOptions sampleManifest]
    by (simp add: o p a)
  then show "ReadDxtIgnorePatterns (str ''/work/ext'') \<in> set (snd (packExtension ?E sampleOptions))"
    using writeStage_begins_discovery [OF a(6), of sampleManifest] by (simp add: o p)
  show "discover ?E (str ''/work/ext'') = Inl (Error (str ''EACCES''))"
    by (simp add: discover_def brokenDiscoveryEnv_def sampleEnv_def)
  show "resolve ?E (extensionPath sampleOptions) = str ''/work/ext''"
    by (simp add: o p)
  have "finalOutputPathOf ?E sampleOptions = finalOutputPathOf (sampleEnv sampleFiles 1000) sampleOptions"
    by (simp add: finalOutputPathOf_def brokenDiscoveryEnv_def Let_def split: option.splits)
  then show "join ?E (finalOutputPathOf ?E sampleOptions) (str ''..'') = str ''/work/ext''"
    by (simp add: sample_final_paths) (simp add: brokenDiscoveryEnv_def sample_paths)
qed

theorem failed_build_writes_nothing_witness:
  "ReadDxtIgnorePatterns (str ''/work/ext'')
     \<in> set (snd (packExtension brokenDiscoveryEnv sampleOptions))
   \<and> discover brokenDiscoveryEnv (str ''/work/ext'') = Inl (Error (str ''EACCES''))
   \<and> fst (packExtension brokenDiscoveryEnv sampleOptions) = Inr False
   \<and> writes (snd (packExtension brokenDiscoveryEnv sampleOptions)) = []"
proof -
  obtain r evs where run: "packExtension brokenDiscoveryEnv sampleOptions = (r, evs)"
    by (cases "packExtension brokenDiscoveryEnv sampleOptions")
  have "r = Inr False \<and> writes evs = []"
    using failed_build_writes_nothing [OF run] broken_discovery_begins run by auto
  with run broken_discovery_begins(1,2) show ?thesis
    by simp
qed

theorem output_directory_created_before_discovery_witness:
  "(\<exists>pre post. snd (packExtension brokenDiscoveryEnv sampleOptions)
       = pre @ MkdirRecursive (str ''/work/ext'') # ReadDxtIgnorePatterns (str ''/work/ext'') # post)
   \<and> fst (packExtension brokenDiscoveryEnv sampleOptions) = Inr False"
proof -
  obtain r evs where run: "packExtension brokenDiscoveryEnv sampleOptions = (r, evs)"
    by (cases "packExtension brokenDiscoveryEnv sampleOptions")
  have begun: "ReadDxtIgnorePatterns (str ''/work/ext'') \<in> set evs"
    using broken_discovery_begins(1) run by simp
  from output_directory_created_before_discovery [OF run begun]
  have "(\<exists>pre post. evs = pre @ MkdirRecursive (str ''/work/ext'')
            # ReadDxtIgnorePatterns (str ''/work/ext'') # post)" and "r = Inr False"
    using broken_discovery_begins(2,3,4) by auto
  with run show ?thesis
    by simp
qed

theorem missing_manifest_asks_then_fails_witness:
  "Confirm \<in> set (snd (packExtension (noManifestEnv False False) sampleOptions))
   \<and> fst (packExtension (noManifestEnv False False) sampleOptions) = Inr False
   \<and> writes (snd (packExtension (noManifestEnv False False) sampleOptions)) = []
   \<and> InitExtension (str ''.'') \<in> set (snd (packExtension (noManifestEnv True False) sampleOptions))
   \<and> fst (packExtension (noManifestEnv True False) sampleOptions) = Inr False
   \<and> zipCalls (snd (packExtension (noManifestEnv True False) sampleOptions)) = []"
proof -
  have o: "extensionPath sampleOptions = str ''.''"
    by (simp add: sampleOptions_def)
  have ne: "str ''/work/ext/manifest.json'' \<noteq> str ''/work/ext''"
    by (simp add: str_def)
  have hyps: "existsSync (noManifestEnv a b) (resolve (noManifestEnv a b) (extensionPath sampleOptions))"
    "isDirectory (noManifestEnv a b) (resolve (noManifestEnv a b) (extensionPath sampleOptions)) = Inr True"
    "\<not> existsSync (noManifestEnv a b)
        (join (noManifestEnv a b) (resolve (noManifestEnv a b) (extensionPath sampleOptions))
           (str ''manifest.json''))"
    "confirm (noManifestEnv a b) = Inr a"
    "initExtension (noManifestEnv a b) p = Inr b" for a b p
    by (simp_all add: noManifestEnv_def o sample_paths sample_answers ne)
  obtain r evs where run: "packExtension (noManifestEnv False False) sampleOptions = (r, evs)"
    by (cases "packExtension (noManifestEnv False False) sampleOptions")
  obtain r' evs' where run': "packExtension (noManifestEnv True False) sampleOptions = (r', evs')"
    by (cases "packExtension (noManifestEnv True False) sampleOptions")
  from missing_manifest_asks_then_fails [OF run hyps(1,2,3)]
  have "Confirm \<in> set evs \<and> r = Inr False \<and> writes evs = []"
    by (simp add: hyps)
  moreover from missing_manifest_asks_then_fails [OF run' hyps(1,2,3)]
  have "InitExtension (str ''.'') \<in> set evs' \<and> r' = Inr False \<and> zipCalls evs' = []"
    by (simp add: hyps o)
  ultimately show ?thesis
    using run run' by simp
qed

end
